theory Spec2Isabelle
  imports Complex_Main
begin

section \<open>Data model of the monitoring engine\<close>

text \<open>
  Shallow embedding of \<^verbatim>\<open>src/website_monitor.py\<close>, of the settings it reads from
  \<^verbatim>\<open>src/settings.py\<close> and of \<^verbatim>\<open>DatabaseManager.batch_insert_monitoring_data\<close>
  from \<^verbatim>\<open>src/database_manager.py\<close>.

  Exceptions are values. The constructors follow the order in which the handlers of the
  source classify a raised exception: \<open>TimeoutError\<close> is anything caught by
  \<^verbatim>\<open>except asyncio.exceptions.TimeoutError\<close> (tested first), \<open>ClientError\<close> anything else that
  is an \<^verbatim>\<open>aiohttp.ClientError\<close>, \<open>Psycopg2Error\<close> a \<^verbatim>\<open>psycopg2.Error\<close>, and
  \<open>OtherError\<close> every remaining subclass of \<^verbatim>\<open>Exception\<close> (\<^verbatim>\<open>OSError\<close> from opening the
  SQL file, \<^verbatim>\<open>re.error\<close>, \<^verbatim>\<open>UnicodeDecodeError\<close>, \<^verbatim>\<open>AttributeError\<close>).
\<close>

datatype error =
    TimeoutError
  | ClientError string
  | Psycopg2Error string
  | OtherError string

text \<open>
  A \<^verbatim>\<open>datetime\<close> is a count of microseconds (its resolution). \<^verbatim>\<open>response_time\<close> is a
  Python float; the model keeps the exact quotient where the float is its rounding.
\<close>

type_synonym datetime = int

record WebsiteMonitoringResult =
  request_timestamp :: datetime
  response_timestamp :: datetime
  response_time :: real
  http_status_code :: int
  url :: "string option"
  website_id :: "int option"
  is_regex_pattern_compliant :: "bool option"

text \<open>The row of one site, a dict with the keys url, id, interval and regexp\_pattern.\<close>

record website_data =
  wd_url :: string
  wd_id :: int
  wd_interval :: "int option"
  wd_regexp_pattern :: "string option"

text \<open>What aiohttp hands back: the status, and what \<^verbatim>\<open>await response.text()\<close> yields.\<close>

record response =
  status :: int
  body_text :: "error + string"

datatype http_method = HEAD | GET

text \<open>Transport actions, in the order they are issued.\<close>

datatype request = Request http_method string | ReadBody string

text \<open>The records written through \<^verbatim>\<open>logger\<close> and \<^verbatim>\<open>logging\<close>, by call site.\<close>

datatype log_record =
    LogSkipMonitoring string
  | LogNumTasks nat
  | LogCouldNotSave error
  | LogSaved nat "(int \<times> nat) list"
  | LogErrorConnecting string error
  | LogDatabaseError error

datatype task_status = Pending | Looping | Done | Failed error

record task =
  site :: website_data
  task_state :: task_status

text \<open>
  The collaborators outside the repository, as oracles asked at a logical time (the
  number of interactions so far, \<open>tick\<close>): the wall clock behind \<^verbatim>\<open>datetime.now()\<close>, the
  aiohttp session, Python's \<^verbatim>\<open>re.search(pattern, body) is not None\<close> (\<open>None\<close> when it
  raises \<^verbatim>\<open>re.error\<close> on a malformed pattern), the SQL file on disk, the PostgreSQL
  connection (cursor, \<^verbatim>\<open>executemany\<close>, commit and close as one outcome; \<^verbatim>\<open>rollback\<close> as
  another), and the event loop's \<^verbatim>\<open>len(asyncio.all_tasks())\<close>, which counts every unfinished
  task of the loop, those of the server that hosts the monitor included.
\<close>

record env =
  wall_clock :: "nat \<Rightarrow> datetime"
  transport :: "nat \<Rightarrow> http_method \<Rightarrow> string \<Rightarrow> error + response"
  re_search :: "string \<Rightarrow> string \<Rightarrow> bool option"
  read_sql_file :: "nat \<Rightarrow> string \<Rightarrow> error + string"
  db_executemany :: "nat \<Rightarrow> string \<Rightarrow> WebsiteMonitoringResult list \<Rightarrow> error option"
  db_rollback :: "nat \<Rightarrow> error option"
  all_tasks :: "nat \<Rightarrow> nat"

text \<open>
  The mutable state: the deque \<^verbatim>\<open>WebsiteMonitor.monitoring_results\<close>, the asyncio tasks
  created by \<^verbatim>\<open>launch_website_monitoring\<close>, whether the scheduler loop is inside its wait
  loop, and the observable history (requests issued, calls of the sink, rows committed,
  log records).
\<close>

record state =
  tick :: nat
  monitoring_results :: "WebsiteMonitoringResult list"
  tasks :: "task list"
  scheduler_waiting :: bool
  requests :: "request list"
  sink_calls :: "WebsiteMonitoringResult list list"
  db_rows :: "WebsiteMonitoringResult list"
  logged :: "log_record list"

section \<open>Settings\<close>

definition REQUEST_TIMEOUT :: nat where
  "REQUEST_TIMEOUT = 30"

definition RESULTS_WORKER_WAIT_TIME :: nat where
  "RESULTS_WORKER_WAIT_TIME = 3"

definition RESULTS_BATCH_SAVE_SIZE :: nat where
  "RESULTS_BATCH_SAVE_SIZE = 100"

definition HTTP_REQUEST_TIMEOUT :: int where
  "HTTP_REQUEST_TIMEOUT = 408"

section \<open>The result sink: batch\_insert\_monitoring\_data\<close>

definition logging :: "log_record \<Rightarrow> state \<Rightarrow> state" where
  "logging r s = s\<lparr>logged := logged s @ [r]\<rparr>"

definition advance :: "state \<Rightarrow> state" where
  "advance s = s\<lparr>tick := Suc (tick s)\<rparr>"

text \<open>
  The file is read first; an error there propagates untouched. \<^verbatim>\<open>asdict\<close> keeps the fields
  of each result, so a row is the result itself. Only a \<^verbatim>\<open>psycopg2.Error\<close> is rolled back,
  logged and raised again; when the rollback itself raises, that exception leaves the
  handler instead, before anything is logged.
\<close>

definition batch_insert_monitoring_data ::
  "env \<Rightarrow> WebsiteMonitoringResult list \<Rightarrow> state \<Rightarrow> (error + unit) \<times> state" where
  "batch_insert_monitoring_data e monitoring_data s =
     (let s0 = s\<lparr>sink_calls := sink_calls s @ [monitoring_data]\<rparr>;
          file_path = ''sql/insert_website_monitoring_data.sql'';
          s1 = advance s0
      in case read_sql_file e (tick s0) file_path of
           Inl err \<Rightarrow> (Inl err, s1)
         | Inr query \<Rightarrow>
             (let processed_data = monitoring_data;
                  s2 = advance s1
              in case db_executemany e (tick s1) query processed_data of
                   None \<Rightarrow> (Inr (), s2\<lparr>db_rows := db_rows s2 @ processed_data\<rparr>)
                 | Some (Psycopg2Error m) \<Rightarrow>
                     (case db_rollback e (tick s2) of
                        None \<Rightarrow>
                          (Inl (Psycopg2Error m),
                           logging (LogDatabaseError (Psycopg2Error m)) (advance s2))
                      | Some err' \<Rightarrow> (Inl err', advance s2))
                 | Some err \<Rightarrow> (Inl err, s2)))"

section \<open>The persister: save\_website\_monitoring\_results\<close>

text \<open>
  \<^verbatim>\<open>http_status_code_to_counter[code] += 1\<close> on a \<^verbatim>\<open>defaultdict(int)\<close>: a dict keeps its
  keys in insertion order, a new key goes last.
\<close>

fun increment :: "(int \<times> nat) list \<Rightarrow> int \<Rightarrow> (int \<times> nat) list" where
  "increment [] code = [(code, 1)]"
| "increment ((k, c) # kvs) code =
     (if k = code then (k, c + 1) # kvs else (k, c) # increment kvs code)"

text \<open>
  The \<^verbatim>\<open>while\<close> loop: as long as the deque is not empty and fewer than
  \<^verbatim>\<open>RESULTS_BATCH_SAVE_SIZE\<close> results were taken, \<^verbatim>\<open>popleft\<close>, append, count.
  It returns the deque, \<^verbatim>\<open>monitoring_data\<close>, the counter and \<^verbatim>\<open>processed_results_num\<close>.
\<close>

fun pop_batch ::
  "WebsiteMonitoringResult list \<Rightarrow> WebsiteMonitoringResult list \<Rightarrow> (int \<times> nat) list \<Rightarrow> nat \<Rightarrow>
   WebsiteMonitoringResult list \<times> WebsiteMonitoringResult list \<times> (int \<times> nat) list \<times> nat" where
  "pop_batch [] monitoring_data counter processed_results_num =
     ([], monitoring_data, counter, processed_results_num)"
| "pop_batch (r # rest) monitoring_data counter processed_results_num =
     (if processed_results_num < RESULTS_BATCH_SAVE_SIZE
      then pop_batch rest (monitoring_data @ [r]) (increment counter (http_status_code r))
             (processed_results_num + 1)
      else (r # rest, monitoring_data, counter, processed_results_num))"

text \<open>
  \<^verbatim>\<open>dict(sorted(items, key=lambda item: item[1], reverse=True))\<close>: Python's sort is stable,
  also with \<^verbatim>\<open>reverse=True\<close>, so this is the stable sort by descending count.
\<close>

definition sorted_descending :: "(int \<times> nat) list \<Rightarrow> (int \<times> nat) list" where
  "sorted_descending items = sort_key (\<lambda>item. - int (snd item)) items"

definition save_website_monitoring_results :: "env \<Rightarrow> state \<Rightarrow> (error + unit) \<times> state" where
  "save_website_monitoring_results e s =
     (case pop_batch (monitoring_results s) [] [] 0 of
        (remaining, monitoring_data, http_status_code_to_counter, processed_results_num) \<Rightarrow>
          (case batch_insert_monitoring_data e monitoring_data
                  (s\<lparr>monitoring_results := remaining\<rparr>) of
             (Inl err, s') \<Rightarrow> (Inl err, s')
           | (Inr u, s') \<Rightarrow>
               (Inr (),
                logging (LogSaved (length monitoring_data)
                           (sorted_descending http_status_code_to_counter)) s')))"

section \<open>The prober: check\_website\_availability\<close>

text \<open>
  Every call reads the oracle at the current tick and moves the tick on. Opening and
  closing the aiohttp session has no outcome the function looks at, and is left out.
\<close>

definition now :: "env \<Rightarrow> state \<Rightarrow> datetime \<times> state" where
  "now e s = (wall_clock e (tick s), advance s)"

definition session_request ::
  "env \<Rightarrow> http_method \<Rightarrow> string \<Rightarrow> state \<Rightarrow> (error + response) \<times> state" where
  "session_request e m target_url s =
     (transport e (tick s) m target_url,
      advance (s\<lparr>requests := requests s @ [Request m target_url]\<rparr>))"

definition response_text :: "response \<Rightarrow> string \<Rightarrow> state \<Rightarrow> (error + string) \<times> state" where
  "response_text resp target_url s =
     (body_text resp, advance (s\<lparr>requests := requests s @ [ReadBody target_url]\<rparr>))"

text \<open>
  The last three statements of the \<^verbatim>\<open>try\<close> block: the second reading of the clock, the
  difference \<^verbatim>\<open>total_seconds()\<close> and the status. None of them raises.
\<close>

definition measure_response ::
  "env \<Rightarrow> response \<Rightarrow> bool option \<Rightarrow> datetime \<Rightarrow> state \<Rightarrow>
   (error + datetime \<times> real \<times> int \<times> bool option) \<times> state" where
  "measure_response e resp compliant request_ts s =
     (case now e s of
        (response_ts, s') \<Rightarrow>
          (Inr (response_ts,
                real_of_int (response_ts - request_ts) / 1000000,
                status resp,
                compliant),
           s'))"

text \<open>
  The \<^verbatim>\<open>try\<close> block. \<^verbatim>\<open>not regexp_pattern\<close> is Python's truth test on \<^verbatim>\<open>str | None\<close>:
  \<^verbatim>\<open>None\<close> and the empty string are both false. An exception of any statement leaves the
  block at once, with \<^verbatim>\<open>is_regex_pattern_compliant\<close> still \<^verbatim>\<open>None\<close> unless the search
  had returned.
\<close>

definition try_block ::
  "env \<Rightarrow> string \<Rightarrow> string option \<Rightarrow> datetime \<Rightarrow> state \<Rightarrow>
   (error + datetime \<times> real \<times> int \<times> bool option) \<times> state" where
  "try_block e target_url regexp_pattern request_ts s =
     (if regexp_pattern = None \<or> regexp_pattern = Some []
      then
        (case session_request e HEAD target_url s of
           (Inl err, s1) \<Rightarrow> (Inl err, s1)
         | (Inr resp, s1) \<Rightarrow> measure_response e resp None request_ts s1)
      else
        (case session_request e GET target_url s of
           (Inl err, s1) \<Rightarrow> (Inl err, s1)
         | (Inr resp, s1) \<Rightarrow>
             (case response_text resp target_url s1 of
                (Inl err, s2) \<Rightarrow> (Inl err, s2)
              | (Inr response_body, s2) \<Rightarrow>
                  (case re_search e (case regexp_pattern of Some pat \<Rightarrow> pat | None \<Rightarrow> [])
                          response_body of
                     None \<Rightarrow> (Inl (OtherError ''re.error''), s2)
                   | Some found \<Rightarrow>
                       measure_response e resp (Some found) request_ts s2))))"

text \<open>How one pass through the body of a loop ends.\<close>

datatype 'a flow = Next | Return 'a | Raise error

text \<open>
  The body of \<^verbatim>\<open>for scheme in ("https", "http")\<close>: the \<^verbatim>\<open>try\<close> block, its two handlers,
  and the \<^verbatim>\<open>return\<close> that follows them. An exception that no handler names propagates.
\<close>

definition scheme_attempt ::
  "env \<Rightarrow> string \<Rightarrow> string option \<Rightarrow> string \<Rightarrow> state \<Rightarrow>
   WebsiteMonitoringResult flow \<times> state" where
  "scheme_attempt e u regexp_pattern scheme s =
     (let target_url = scheme @ ''://'' @ u
      in case now e s of
        (request_ts, s0) \<Rightarrow>
          (case try_block e target_url regexp_pattern request_ts s0 of
             (Inr (response_ts, response_time', http_status_code', compliant), s1) \<Rightarrow>
               (Return \<lparr>request_timestamp = request_ts,
                        response_timestamp = response_ts,
                        response_time = response_time',
                        http_status_code = http_status_code',
                        url = None, website_id = None,
                        is_regex_pattern_compliant = compliant\<rparr>,
                s1)
           | (Inl TimeoutError, s1) \<Rightarrow>
               (case now e s1 of
                  (response_ts, s2) \<Rightarrow>
                    (Return \<lparr>request_timestamp = request_ts,
                             response_timestamp = response_ts,
                             response_time = real REQUEST_TIMEOUT,
                             http_status_code = HTTP_REQUEST_TIMEOUT,
                             url = None, website_id = None,
                             is_regex_pattern_compliant = None\<rparr>,
                     s2))
           | (Inl (ClientError m), s1) \<Rightarrow>
               (Raise (ClientError m), logging (LogErrorConnecting u (ClientError m)) s1)
           | (Inl err, s1) \<Rightarrow> (Raise err, s1)))"

text \<open>
  The \<^verbatim>\<open>for\<close> loop. A function that falls off its end returns \<^verbatim>\<open>None\<close>.
\<close>

fun for_schemes ::
  "env \<Rightarrow> string \<Rightarrow> string option \<Rightarrow> string list \<Rightarrow> state \<Rightarrow>
   (error + WebsiteMonitoringResult option) \<times> state" where
  "for_schemes e u regexp_pattern [] s = (Inr None, s)"
| "for_schemes e u regexp_pattern (scheme # rest) s =
     (case scheme_attempt e u regexp_pattern scheme s of
        (Next, s') \<Rightarrow> for_schemes e u regexp_pattern rest s'
      | (Return r, s') \<Rightarrow> (Inr (Some r), s')
      | (Raise err, s') \<Rightarrow> (Inl err, s'))"

definition check_website_availability ::
  "env \<Rightarrow> string \<Rightarrow> string option \<Rightarrow> state \<Rightarrow>
   (error + WebsiteMonitoringResult option) \<times> state" where
  "check_website_availability e u regexp_pattern s =
     for_schemes e u regexp_pattern [''https'', ''http''] s"

text \<open>
  The probe as the specification words it, for comparison with the loop of the source:
  one attempt, over https only.
\<close>

definition probe_https_only ::
  "env \<Rightarrow> string \<Rightarrow> string option \<Rightarrow> state \<Rightarrow>
   (error + WebsiteMonitoringResult option) \<times> state" where
  "probe_https_only e u regexp_pattern s =
     (case scheme_attempt e u regexp_pattern ''https'' s of
        (Return r, s') \<Rightarrow> (Inr (Some r), s')
      | (Raise err, s') \<Rightarrow> (Inl err, s')
      | (Next, s') \<Rightarrow> (Inr None, s'))"

section \<open>The site task: check\_website\_recurrently\<close>

text \<open>
  One pass through the body of \<^verbatim>\<open>while True\<close>: probe, stamp the url and the id on the
  result, append it to the deque, sleep. Sleeping changes nothing the model records; it is
  the point where other tasks run. Setting an attribute on \<^verbatim>\<open>None\<close> raises.
\<close>

definition site_iteration :: "env \<Rightarrow> website_data \<Rightarrow> state \<Rightarrow> (error + unit) \<times> state" where
  "site_iteration e wd s =
     (case check_website_availability e (wd_url wd) (wd_regexp_pattern wd) s of
        (Inl err, s1) \<Rightarrow> (Inl err, s1)
      | (Inr None, s1) \<Rightarrow> (Inl (OtherError ''AttributeError''), s1)
      | (Inr (Some url_monitoring_result), s1) \<Rightarrow>
          (Inr (),
           s1\<lparr>monitoring_results := monitoring_results s1 @
                [url_monitoring_result\<lparr>url := Some (wd_url wd), website_id := Some (wd_id wd)\<rparr>]\<rparr>))"

text \<open>
  How a run of the coroutine ends: it returned, an exception left it, or it is still
  inside \<^verbatim>\<open>while True\<close> after the passes it was given.
\<close>

datatype task_outcome = Returned | Crashed error | StillLooping

fun monitoring_loop :: "env \<Rightarrow> website_data \<Rightarrow> nat \<Rightarrow> state \<Rightarrow> task_outcome \<times> state" where
  "monitoring_loop e wd 0 s = (StillLooping, s)"
| "monitoring_loop e wd (Suc passes) s =
     (case site_iteration e wd s of
        (Inl err, s') \<Rightarrow> (Crashed err, s')
      | (Inr u, s') \<Rightarrow> monitoring_loop e wd passes s')"

text \<open>\<^verbatim>\<open>not website_data["interval"]\<close>: \<^verbatim>\<open>None\<close> and 0 are false.\<close>

definition check_website_recurrently ::
  "env \<Rightarrow> website_data \<Rightarrow> nat \<Rightarrow> state \<Rightarrow> task_outcome \<times> state" where
  "check_website_recurrently e wd passes s =
     (if wd_interval wd = None \<or> wd_interval wd = Some 0
      then (Returned, logging (LogSkipMonitoring (wd_url wd)) s)
      else monitoring_loop e wd passes s)"

section \<open>The scheduler: launch\_website\_monitoring and monitor\_websites\<close>

text \<open>
  \<^verbatim>\<open>asyncio.create_task\<close> adds a task; the event loop resumes a task that is not finished,
  and here one resumption runs the coroutine up to its next sleep: a new task from the
  start of \<^verbatim>\<open>check_website_recurrently\<close> for one pass of its loop, a task inside the loop
  for one more pass. A coroutine that returned, or that an exception left, leaves its task
  finished (the exception is kept in the task); nothing in the repository starts a
  finished task again. The awaits inside a probe touch no state that tasks share, so a
  pass is taken as one step.
\<close>

definition launch_website_monitoring :: "website_data \<Rightarrow> state \<Rightarrow> state" where
  "launch_website_monitoring wd s =
     s\<lparr>tasks := tasks s @ [\<lparr>site = wd, task_state = Pending\<rparr>]\<rparr>"

definition set_task_state :: "nat \<Rightarrow> task_status \<Rightarrow> state \<Rightarrow> state" where
  "set_task_state i st s = s\<lparr>tasks := (tasks s)[i := (tasks s ! i)\<lparr>task_state := st\<rparr>]\<rparr>"

definition task_after :: "nat \<Rightarrow> task_outcome \<times> state \<Rightarrow> state" where
  "task_after i r =
     (case r of
        (Crashed err, s') \<Rightarrow> set_task_state i (Failed err) s'
      | (Returned, s') \<Rightarrow> set_task_state i Done s'
      | (StillLooping, s') \<Rightarrow> set_task_state i Looping s')"

definition resume_looping :: "env \<Rightarrow> nat \<Rightarrow> website_data \<Rightarrow> state \<Rightarrow> state" where
  "resume_looping e i wd s = task_after i (monitoring_loop e wd 1 s)"

definition resume_task :: "env \<Rightarrow> nat \<Rightarrow> state \<Rightarrow> state" where
  "resume_task e i s =
     (if i < length (tasks s)
      then
        (case task_state (tasks s ! i) of
           Pending \<Rightarrow> task_after i (check_website_recurrently e (site (tasks s ! i)) 1 s)
         | Looping \<Rightarrow> resume_looping e i (site (tasks s ! i)) s
         | Done \<Rightarrow> s
         | Failed err \<Rightarrow> s)
      else s)"

text \<open>The \<^verbatim>\<open>try\<close> statement of \<^verbatim>\<open>monitor_websites\<close>: every exception is logged, none leaves.\<close>

definition flush_cycle :: "env \<Rightarrow> state \<Rightarrow> state" where
  "flush_cycle e s =
     (case save_website_monitoring_results e s of
        (Inl err, s') \<Rightarrow> logging (LogCouldNotSave err) s'
      | (Inr u, s') \<Rightarrow> s')"

text \<open>
  One step of the \<^verbatim>\<open>while True\<close> loop of \<^verbatim>\<open>monitor_websites\<close>: at the top of a cycle
  it logs the number of tasks the event loop reports; while the deque
  is empty it sleeps \<^verbatim>\<open>RESULTS_WORKER_WAIT_TIME\<close> seconds and tests again when resumed;
  otherwise it saves one batch and is at the top of the next cycle. The source does not
  sleep between two saves; a schedule may still place other tasks between two steps, so
  the schedules of the model include those of the source.
\<close>

definition monitor_step :: "env \<Rightarrow> state \<Rightarrow> state" where
  "monitor_step e s =
     (let s1 = (if scheduler_waiting s then s
                else logging (LogNumTasks (all_tasks e (tick s))) s)
      in if monitoring_results s1 = []
         then s1\<lparr>scheduler_waiting := True\<rparr>
         else flush_cycle e (s1\<lparr>scheduler_waiting := False\<rparr>))"

text \<open>The \<^verbatim>\<open>for\<close> loop that opens \<^verbatim>\<open>monitor_websites\<close>.\<close>

definition launch_all :: "website_data list \<Rightarrow> state \<Rightarrow> state" where
  "launch_all websites_data s = foldl (\<lambda>s' wd. launch_website_monitoring wd s') s websites_data"

text \<open>The event loop runs a schedule: which coroutine is resumed next.\<close>

datatype actor = Scheduler | SiteTask nat

fun run :: "env \<Rightarrow> actor list \<Rightarrow> state \<Rightarrow> state" where
  "run e [] s = s"
| "run e (Scheduler # schedule) s = run e schedule (monitor_step e s)"
| "run e (SiteTask i # schedule) s = run e schedule (resume_task e i s)"

section \<open>Vocabulary of the properties\<close>

text \<open>The URL a transport action goes to.\<close>

fun request_url :: "request \<Rightarrow> string" where
  "request_url (Request m target_url) = target_url"
| "request_url (ReadBody target_url) = target_url"

text \<open>
  The request of a probe that starts at tick \<open>k\<close> times out: the clock is read at \<open>k\<close>,
  the request goes out at \<open>k + 1\<close>, and either the request itself or, after a GET, the
  reading of the body raises the timeout.
\<close>

definition probe_times_out :: "env \<Rightarrow> nat \<Rightarrow> string \<Rightarrow> string option \<Rightarrow> bool" where
  "probe_times_out e k u p =
     (if p = None \<or> p = Some []
      then transport e (Suc k) HEAD (''https://'' @ u) = Inl TimeoutError
      else (case transport e (Suc k) GET (''https://'' @ u) of
              Inl err \<Rightarrow> err = TimeoutError
            | Inr resp \<Rightarrow> body_text resp = Inl TimeoutError))"

text \<open>A site is monitored when its interval is neither absent nor zero.\<close>

definition monitored :: "website_data \<Rightarrow> bool" where
  "monitored wd = (wd_interval wd \<noteq> None \<and> wd_interval wd \<noteq> Some 0)"

text \<open>
  An invariant of the event loop: a task inside its loop belongs to a monitored site, and
  every result in the deque carries the url and the id of a monitored site that has a
  task.
\<close>

definition results_from_monitored_sites :: "state \<Rightarrow> bool" where
  "results_from_monitored_sites s =
     ((\<forall>t \<in> set (tasks s). task_state t = Looping \<longrightarrow> monitored (site t))
      \<and> (\<forall>r \<in> set (monitoring_results s). \<exists>wd \<in> set (map site (tasks s)).
            monitored wd \<and> website_id r = Some (wd_id wd) \<and> url r = Some (wd_url wd)))"

text \<open>The distinct status codes of a batch, in the order of their first occurrence.\<close>

definition first_seen :: "int list \<Rightarrow> int list" where
  "first_seen codes = rev (remdups (rev codes))"

section \<open>Concrete environments\<close>

text \<open>What \<^verbatim>\<open>re.search\<close> computes for a pattern without metacharacters: is it a substring.\<close>

fun literal_search :: "string \<Rightarrow> string \<Rightarrow> bool" where
  "literal_search pat [] = (pat = [])"
| "literal_search pat (c # cs) = (take (length pat) (c # cs) = pat \<or> literal_search pat cs)"

text \<open>
  A site that answers 200 with the body \<open>a foo b\<close>, a clock that advances one second
  per reading, a healthy database, an event loop that reports two tasks.
\<close>

definition example_env :: env where
  "example_env =
     \<lparr>wall_clock = (\<lambda>k. 1000000 * int k),
      transport = (\<lambda>k m target. Inr \<lparr>status = 200, body_text = Inr ''a foo b''\<rparr>),
      re_search = (\<lambda>pat body. Some (literal_search pat body)),
      read_sql_file = (\<lambda>k path. Inr ''INSERT''),
      db_executemany = (\<lambda>k query rows. None),
      db_rollback = (\<lambda>k. None),
      all_tasks = (\<lambda>k. 2)\<rparr>"

definition initial_state :: state where
  "initial_state =
     \<lparr>tick = 0, monitoring_results = [], tasks = [], scheduler_waiting = False,
      requests = [], sink_calls = [], db_rows = [], logged = []\<rparr>"

text \<open>The same, with every request timing out.\<close>

definition unresponsive_env :: env where
  "unresponsive_env = example_env\<lparr>transport := (\<lambda>k m target. Inl TimeoutError)\<rparr>"


text \<open>Three sites: one monitored every 5 s, one with interval 0, one that cannot be reached.\<close>

definition active_site :: website_data where
  "active_site = \<lparr>wd_url = ''example.org'', wd_id = 1, wd_interval = Some 5,
                   wd_regexp_pattern = None\<rparr>"

definition inactive_site :: website_data where
  "inactive_site = \<lparr>wd_url = ''example.net'', wd_id = 2, wd_interval = Some 0,
                     wd_regexp_pattern = None\<rparr>"

definition unreachable_site :: website_data where
  "unreachable_site = \<lparr>wd_url = ''example.net'', wd_id = 3, wd_interval = Some 5,
                        wd_regexp_pattern = Some ''foo''\<rparr>"

text \<open>The example environment, with every connection to example.net refused.\<close>

definition unreachable_env :: env where
  "unreachable_env =
     example_env\<lparr>transport := (\<lambda>k m target.
        if target = ''https://example.net'' then Inl (ClientError ''Cannot connect to host'')
        else Inr \<lparr>status = 200, body_text = Inr ''a foo b''\<rparr>)\<rparr>"

text \<open>A result with a given status code, and the start-up state with such results buffered.\<close>

definition sample_result :: "int \<Rightarrow> WebsiteMonitoringResult" where
  "sample_result code =
     \<lparr>request_timestamp = 0, response_timestamp = 1000000, response_time = 1,
      http_status_code = code, url = Some ''example.org'', website_id = Some 1,
      is_regex_pattern_compliant = None\<rparr>"

definition buffered :: "int list \<Rightarrow> state" where
  "buffered codes = initial_state\<lparr>monitoring_results := map sample_result codes\<rparr>"

text \<open>The example environment, with a database connection that raises on every write.\<close>

definition failing_db_env :: env where
  "failing_db_env =
     example_env\<lparr>db_executemany := (\<lambda>k query rows. Some (Psycopg2Error ''connection lost''))\<rparr>"

text \<open>The example environment, with the SQL file of the insert missing.\<close>

definition missing_sql_env :: env where
  "missing_sql_env =
     example_env\<lparr>read_sql_file := (\<lambda>k path. Inl (OtherError ''FileNotFoundError''))\<rparr>"

section \<open>The buffer is drained first in, first out\<close>

lemma pop_batch_eq:
  "pop_batch buf acc cnt n =
     (drop (RESULTS_BATCH_SAVE_SIZE - n) buf,
      acc @ take (RESULTS_BATCH_SAVE_SIZE - n) buf,
      foldl increment cnt (map http_status_code (take (RESULTS_BATCH_SAVE_SIZE - n) buf)),
      n + min (length buf) (RESULTS_BATCH_SAVE_SIZE - n))"
proof (induction buf arbitrary: acc cnt n)
  case Nil
  then show ?case by simp
next
  case (Cons r rest)
  show ?case
  proof (cases "n < RESULTS_BATCH_SAVE_SIZE")
    case True
    then obtain k where k: "RESULTS_BATCH_SAVE_SIZE - n = Suc k"
      by (metis Suc_diff_Suc)
    then have "RESULTS_BATCH_SAVE_SIZE - (n + 1) = k" by simp
    with True k Cons.IH [of "acc @ [r]" "increment cnt (http_status_code r)" "n + 1"]
    show ?thesis by simp
  next
    case False
    then show ?thesis by simp
  qed
qed

lemma sink_call_recorded:
  "sink_calls (snd (batch_insert_monitoring_data e batch s)) = sink_calls s @ [batch]"
  by (simp add: batch_insert_monitoring_data_def Let_def advance_def logging_def
      split: sum.splits option.splits error.splits)

lemma sink_keeps_buffer:
  "monitoring_results (snd (batch_insert_monitoring_data e batch s)) = monitoring_results s"
  by (simp add: batch_insert_monitoring_data_def Let_def advance_def logging_def
      split: sum.splits option.splits error.splits)

lemma save_sink_calls:
  "sink_calls (snd (save_website_monitoring_results e s)) =
     sink_calls s @ [take RESULTS_BATCH_SAVE_SIZE (monitoring_results s)]"
proof -
  let ?s1 = "s\<lparr>monitoring_results := drop RESULTS_BATCH_SAVE_SIZE (monitoring_results s)\<rparr>"
  let ?b = "take RESULTS_BATCH_SAVE_SIZE (monitoring_results s)"
  have "sink_calls (snd (batch_insert_monitoring_data e ?b ?s1)) = sink_calls ?s1 @ [?b]"
    by (rule sink_call_recorded)
  then show ?thesis
    by (cases "batch_insert_monitoring_data e ?b ?s1")
       (auto simp: save_website_monitoring_results_def pop_batch_eq logging_def
             split: sum.splits)
qed

lemma save_buffer:
  "monitoring_results (snd (save_website_monitoring_results e s)) =
     drop RESULTS_BATCH_SAVE_SIZE (monitoring_results s)"
proof -
  let ?s1 = "s\<lparr>monitoring_results := drop RESULTS_BATCH_SAVE_SIZE (monitoring_results s)\<rparr>"
  let ?b = "take RESULTS_BATCH_SAVE_SIZE (monitoring_results s)"
  have "monitoring_results (snd (batch_insert_monitoring_data e ?b ?s1)) = monitoring_results ?s1"
    by (rule sink_keeps_buffer)
  then show ?thesis
    by (cases "batch_insert_monitoring_data e ?b ?s1")
       (auto simp: save_website_monitoring_results_def pop_batch_eq logging_def
             split: sum.splits)
qed

text \<open>
  Claim C1. Whatever the buffer holds and whatever the sink answers, one call of
  \<^verbatim>\<open>save_website_monitoring_results\<close> returns (the function is total, so it cannot
  block, an empty buffer included); the sink has been called exactly once more, with the
  first min(length, 100) results of the buffer in their order; that batch never has more
  than 100 results; and the buffer keeps exactly the results behind them, in order.
\<close>

theorem flush_pops_fifo_batch:
  "sink_calls (snd (save_website_monitoring_results e s)) =
     sink_calls s @ [take (min (length (monitoring_results s)) 100) (monitoring_results s)]
   \<and> monitoring_results (snd (save_website_monitoring_results e s)) =
       drop (min (length (monitoring_results s)) 100) (monitoring_results s)
   \<and> length (last (sink_calls (snd (save_website_monitoring_results e s)))) =
       min (length (monitoring_results s)) 100
   \<and> length (last (sink_calls (snd (save_website_monitoring_results e s)))) \<le> RESULTS_BATCH_SAVE_SIZE
   \<and> monitoring_results s =
       last (sink_calls (snd (save_website_monitoring_results e s)))
       @ monitoring_results (snd (save_website_monitoring_results e s))"
proof -
  have m: "take (min (length (monitoring_results s)) 100) (monitoring_results s) =
             take RESULTS_BATCH_SAVE_SIZE (monitoring_results s)"
    by (simp add: RESULTS_BATCH_SAVE_SIZE_def min_def)
  have d: "drop (min (length (monitoring_results s)) 100) (monitoring_results s) =
             drop RESULTS_BATCH_SAVE_SIZE (monitoring_results s)"
    by (simp add: RESULTS_BATCH_SAVE_SIZE_def min_def)
  show ?thesis
    unfolding save_sink_calls save_buffer m d
    by (simp add: RESULTS_BATCH_SAVE_SIZE_def min_def)
qed

section \<open>The loop over the schemes ends in its first pass\<close>

lemmas probe_defs =
  check_website_availability_def scheme_attempt_def try_block_def session_request_def
  response_text_def measure_response_def now_def advance_def logging_def Let_def

lemma scheme_attempt_not_next: "fst (scheme_attempt e u p scheme s) \<noteq> Next"
  by (simp add: probe_defs split: prod.splits sum.splits error.splits option.splits)

lemma scheme_attempt_requests:
  "\<exists>issued. requests (snd (scheme_attempt e u p scheme s)) = requests s @ issued
      \<and> issued \<noteq> [] \<and> list_all (\<lambda>r. request_url r = scheme @ ''://'' @ u) issued"
  by (simp add: probe_defs split: prod.splits sum.splits error.splits option.splits)

lemma probe_eq_first_attempt:
  "check_website_availability e u p s =
     (case scheme_attempt e u p ''https'' s of
        (Return r, s') \<Rightarrow> (Inr (Some r), s')
      | (Raise err, s') \<Rightarrow> (Inl err, s')
      | (Next, s') \<Rightarrow> (Inr None, s'))"
proof -
  obtain f s' where a: "scheme_attempt e u p ''https'' s = (f, s')"
    by (cases "scheme_attempt e u p ''https'' s")
  with scheme_attempt_not_next [of e u p "''https''" s] have "f \<noteq> Next" by simp
  with a show ?thesis
    by (cases f) (simp_all add: check_website_availability_def)
qed

text \<open>
  Claim C8. The loop of \<^verbatim>\<open>check_website_availability\<close> runs over https and http, but a
  pass through its body never ends by going on to the next scheme: it returns a result or
  raises. So the probe equals one attempt over https, it never falls off the loop
  (returning \<^verbatim>\<open>None\<close>), it issues at least one transport action, every action it issues
  goes to the https URL, and none goes to the http URL.
\<close>

theorem probe_is_single_https_attempt:
  "check_website_availability e u p s = probe_https_only e u p s
   \<and> fst (scheme_attempt e u p scheme s) \<noteq> Next
   \<and> fst (check_website_availability e u p s) \<noteq> Inr None
   \<and> (\<exists>issued. requests (snd (check_website_availability e u p s)) = requests s @ issued
         \<and> issued \<noteq> []
         \<and> list_all (\<lambda>r. request_url r = ''https://'' @ u) issued
         \<and> list_all (\<lambda>r. request_url r \<noteq> ''http://'' @ u) issued)"
proof -
  obtain f s' where a: "scheme_attempt e u p ''https'' s = (f, s')"
    by (cases "scheme_attempt e u p ''https'' s")
  from scheme_attempt_not_next [of e u p "''https''" s] a have n: "f \<noteq> Next" by simp
  from scheme_attempt_requests [of e u p "''https''" s] a
  obtain issued where i: "requests s' = requests s @ issued" "issued \<noteq> []"
      "list_all (\<lambda>r. request_url r = ''https://'' @ u) issued"
    by auto
  have "list_all (\<lambda>r. request_url r \<noteq> ''http://'' @ u) issued"
    using i(3) by (induction issued) auto
  with i a n show ?thesis
    by (cases f) (simp_all add: probe_eq_first_attempt probe_https_only_def scheme_attempt_not_next)
qed

section \<open>What one probe returns\<close>

lemma probe_head_answers:
  assumes "p = None \<or> p = Some []"
    and "transport e (Suc (tick s)) HEAD (''https://'' @ u) = Inr resp"
  shows "check_website_availability e u p s =
    (Inr (Some \<lparr>request_timestamp = wall_clock e (tick s),
                response_timestamp = wall_clock e (Suc (Suc (tick s))),
                response_time =
                  real_of_int (wall_clock e (Suc (Suc (tick s))) - wall_clock e (tick s)) / 1000000,
                http_status_code = status resp,
                url = None, website_id = None,
                is_regex_pattern_compliant = None\<rparr>),
     s\<lparr>tick := Suc (Suc (Suc (tick s))),
       requests := requests s @ [Request HEAD (''https://'' @ u)]\<rparr>)"
  using assms by (auto simp: probe_defs)

lemma probe_head_times_out:
  assumes "p = None \<or> p = Some []"
    and "transport e (Suc (tick s)) HEAD (''https://'' @ u) = Inl TimeoutError"
  shows "check_website_availability e u p s =
    (Inr (Some \<lparr>request_timestamp = wall_clock e (tick s),
                response_timestamp = wall_clock e (Suc (Suc (tick s))),
                response_time = 30,
                http_status_code = 408,
                url = None, website_id = None,
                is_regex_pattern_compliant = None\<rparr>),
     s\<lparr>tick := Suc (Suc (Suc (tick s))),
       requests := requests s @ [Request HEAD (''https://'' @ u)]\<rparr>)"
  using assms by (auto simp: probe_defs REQUEST_TIMEOUT_def HTTP_REQUEST_TIMEOUT_def)

lemma probe_head_raises:
  assumes "p = None \<or> p = Some []"
    and "transport e (Suc (tick s)) HEAD (''https://'' @ u) = Inl err"
    and "err \<noteq> TimeoutError"
  shows "check_website_availability e u p s =
    (Inl err,
     s\<lparr>tick := Suc (Suc (tick s)),
       requests := requests s @ [Request HEAD (''https://'' @ u)],
       logged := logged s @ (case err of ClientError m \<Rightarrow> [LogErrorConnecting u err] | _ \<Rightarrow> [])\<rparr>)"
  using assms by (cases err) (auto simp: probe_defs)

lemma probe_get_answers:
  assumes "p = Some pat" and "pat \<noteq> []"
    and "transport e (Suc (tick s)) GET (''https://'' @ u) = Inr resp"
    and "body_text resp = Inr body"
    and "re_search e pat body = Some found"
  shows "check_website_availability e u p s =
    (Inr (Some \<lparr>request_timestamp = wall_clock e (tick s),
                response_timestamp = wall_clock e (Suc (Suc (Suc (tick s)))),
                response_time =
                  real_of_int (wall_clock e (Suc (Suc (Suc (tick s)))) - wall_clock e (tick s)) / 1000000,
                http_status_code = status resp,
                url = None, website_id = None,
                is_regex_pattern_compliant = Some found\<rparr>),
     s\<lparr>tick := Suc (Suc (Suc (Suc (tick s)))),
       requests := requests s @ [Request GET (''https://'' @ u), ReadBody (''https://'' @ u)]\<rparr>)"
  using assms by (auto simp: probe_defs)

lemma probe_get_times_out:
  assumes "p = Some pat" and "pat \<noteq> []"
    and "transport e (Suc (tick s)) GET (''https://'' @ u) = Inl TimeoutError"
  shows "check_website_availability e u p s =
    (Inr (Some \<lparr>request_timestamp = wall_clock e (tick s),
                response_timestamp = wall_clock e (Suc (Suc (tick s))),
                response_time = 30,
                http_status_code = 408,
                url = None, website_id = None,
                is_regex_pattern_compliant = None\<rparr>),
     s\<lparr>tick := Suc (Suc (Suc (tick s))),
       requests := requests s @ [Request GET (''https://'' @ u)]\<rparr>)"
  using assms by (auto simp: probe_defs REQUEST_TIMEOUT_def HTTP_REQUEST_TIMEOUT_def)

lemma probe_body_times_out:
  assumes "p = Some pat" and "pat \<noteq> []"
    and "transport e (Suc (tick s)) GET (''https://'' @ u) = Inr resp"
    and "body_text resp = Inl TimeoutError"
  shows "check_website_availability e u p s =
    (Inr (Some \<lparr>request_timestamp = wall_clock e (tick s),
                response_timestamp = wall_clock e (Suc (Suc (Suc (tick s)))),
                response_time = 30,
                http_status_code = 408,
                url = None, website_id = None,
                is_regex_pattern_compliant = None\<rparr>),
     s\<lparr>tick := Suc (Suc (Suc (Suc (tick s)))),
       requests := requests s @ [Request GET (''https://'' @ u), ReadBody (''https://'' @ u)]\<rparr>)"
  using assms by (auto simp: probe_defs REQUEST_TIMEOUT_def HTTP_REQUEST_TIMEOUT_def)

lemma probe_get_raises:
  assumes "p = Some pat" and "pat \<noteq> []"
    and "transport e (Suc (tick s)) GET (''https://'' @ u) = Inl err"
    and "err \<noteq> TimeoutError"
  shows "check_website_availability e u p s =
    (Inl err,
     s\<lparr>tick := Suc (Suc (tick s)),
       requests := requests s @ [Request GET (''https://'' @ u)],
       logged := logged s @ (case err of ClientError m \<Rightarrow> [LogErrorConnecting u err] | _ \<Rightarrow> [])\<rparr>)"
  using assms by (cases err) (auto simp: probe_defs)

section \<open>Response time and timeouts\<close>

lemmas example_defs = example_env_def initial_state_def

lemma timed_out_result:
  assumes "probe_times_out e (tick s) u p"
  shows "\<exists>r. fst (check_website_availability e u p s) = Inr (Some r)
           \<and> http_status_code r = 408 \<and> response_time r = 30
           \<and> is_regex_pattern_compliant r = None"
proof (cases "p = None \<or> p = Some []")
  case True
  with assms show ?thesis
    by (simp add: probe_times_out_def probe_head_times_out)
next
  case False
  then obtain pat where p: "p = Some pat" "pat \<noteq> []" by auto
  show ?thesis
  proof (cases "transport e (Suc (tick s)) GET (''https://'' @ u)")
    case (Inl err)
    with assms False have "err = TimeoutError" by (simp add: probe_times_out_def)
    with Inl p show ?thesis by (simp add: probe_get_times_out)
  next
    case (Inr resp)
    with assms False have "body_text resp = Inl TimeoutError" by (simp add: probe_times_out_def)
    with Inr p show ?thesis by (simp add: probe_body_times_out)
  qed
qed





section \<open>The request method and the compliance check\<close>

lemma probe_ignores_search_without_pattern:
  assumes "p = None \<or> p = Some []"
  shows "check_website_availability (e\<lparr>re_search := f\<rparr>) u p s = check_website_availability e u p s"
proof (cases "transport e (Suc (tick s)) HEAD (''https://'' @ u)")
  case (Inr resp)
  with assms show ?thesis
    using probe_head_answers [of p e s u resp]
      probe_head_answers [of p "e\<lparr>re_search := f\<rparr>" s u resp]
    by simp
next
  case (Inl err)
  show ?thesis
  proof (cases "err = TimeoutError")
    case True
    with Inl assms show ?thesis
      using probe_head_times_out [of p e s u]
        probe_head_times_out [of p "e\<lparr>re_search := f\<rparr>" s u]
      by simp
  next
    case False
    with Inl assms show ?thesis
      using probe_head_raises [of p e s u err]
        probe_head_raises [of p "e\<lparr>re_search := f\<rparr>" s u err]
      by simp
  qed
qed

lemma probe_head_requests:
  assumes "p = None \<or> p = Some []"
  shows "requests (snd (check_website_availability e u p s)) =
           requests s @ [Request HEAD (''https://'' @ u)]"
  using assms
  by (auto simp: probe_defs split: prod.splits sum.splits error.splits)

lemma probe_head_compliance:
  assumes "p = None \<or> p = Some []"
    and "fst (check_website_availability e u p s) = Inr (Some r)"
  shows "is_regex_pattern_compliant r = None"
  using assms
  by (auto simp: probe_defs split: prod.splits sum.splits error.splits)

text \<open>
  Claim C9. With the empty string as pattern the probe is the probe without a pattern,
  outcome and state alike: it issues one HEAD request to the https URL and nothing else (no
  body is read); when the HEAD answers, it returns a result with that status and
  \<^verbatim>\<open>is_regex_pattern_compliant\<close> unset, when it times out, the 408 result, unset as well,
  and any other exception of the transport is raised; and no compliance check is made,
  since the probe is the same whatever \<^verbatim>\<open>re.search\<close> would answer.
\<close>

theorem empty_pattern_is_no_pattern:
  "check_website_availability e u (Some []) s = check_website_availability e u None s
   \<and> requests (snd (check_website_availability e u (Some []) s)) =
       requests s @ [Request HEAD (''https://'' @ u)]
   \<and> (case transport e (Suc (tick s)) HEAD (''https://'' @ u) of
         Inr resp \<Rightarrow>
           (\<exists>r. fst (check_website_availability e u (Some []) s) = Inr (Some r)
               \<and> http_status_code r = status resp \<and> is_regex_pattern_compliant r = None)
       | Inl TimeoutError \<Rightarrow>
           (\<exists>r. fst (check_website_availability e u (Some []) s) = Inr (Some r)
               \<and> http_status_code r = 408 \<and> is_regex_pattern_compliant r = None)
       | Inl err \<Rightarrow> fst (check_website_availability e u (Some []) s) = Inl err)
   \<and> check_website_availability (e\<lparr>re_search := f\<rparr>) u (Some []) s =
       check_website_availability e u (Some []) s"
proof -
  have "\<And>target ts s'. try_block e target (Some []) ts s' = try_block e target None ts s'"
    by (simp add: try_block_def)
  then have "\<And>scheme s'. scheme_attempt e u (Some []) scheme s' = scheme_attempt e u None scheme s'"
    by (simp add: scheme_attempt_def)
  then have same: "check_website_availability e u (Some []) s = check_website_availability e u None s"
    by (simp add: probe_eq_first_attempt)
  have outcome: "(case transport e (Suc (tick s)) HEAD (''https://'' @ u) of
         Inr resp \<Rightarrow>
           (\<exists>r. fst (check_website_availability e u (Some []) s) = Inr (Some r)
               \<and> http_status_code r = status resp \<and> is_regex_pattern_compliant r = None)
       | Inl TimeoutError \<Rightarrow>
           (\<exists>r. fst (check_website_availability e u (Some []) s) = Inr (Some r)
               \<and> http_status_code r = 408 \<and> is_regex_pattern_compliant r = None)
       | Inl err \<Rightarrow> fst (check_website_availability e u (Some []) s) = Inl err)"
  proof (cases "transport e (Suc (tick s)) HEAD (''https://'' @ u)")
    case (Inr resp)
    then show ?thesis by (simp add: probe_head_answers)
  next
    case (Inl err)
    then show ?thesis
      by (cases err) (simp_all add: probe_head_times_out probe_head_raises)
  qed
  from same outcome show ?thesis
    by (simp add: probe_head_requests probe_ignores_search_without_pattern)
qed

lemma probe_get_first:
  assumes "p = Some pat" and "pat \<noteq> []"
  shows "\<exists>rest. requests (snd (check_website_availability e u p s)) =
           requests s @ Request GET (''https://'' @ u) # rest"
  using assms
  by (auto simp: probe_defs split: prod.splits sum.splits error.splits option.splits)

lemma probe_get_result:
  assumes "p = Some pat" and "pat \<noteq> []"
    and "fst (check_website_availability e u p s) = Inr (Some r)"
    and "\<not> probe_times_out e (tick s) u p"
  shows "\<exists>resp body. transport e (Suc (tick s)) GET (''https://'' @ u) = Inr resp
           \<and> body_text resp = Inr body
           \<and> is_regex_pattern_compliant r = re_search e pat body
           \<and> http_status_code r = status resp
           \<and> requests (snd (check_website_availability e u p s)) =
               requests s @ [Request GET (''https://'' @ u), ReadBody (''https://'' @ u)]"
  using assms
  by (auto simp: probe_defs probe_times_out_def
           split: prod.splits sum.splits error.splits option.splits if_splits)

text \<open>
  Claim C6, as the code has it. Without a pattern (absent or empty) the probe issues one
  HEAD request and reads no body, and a result it returns has
  \<^verbatim>\<open>is_regex_pattern_compliant\<close> unset. With a non-empty pattern the first action is a GET
  request; when the GET answers, the body is read and the search returns, the actions are
  the GET and the reading of the body, and the result carries the status and the answer of
  \<^verbatim>\<open>re.search\<close> on that body; every result of a probe that did not time out is of this
  kind; and when the GET or the reading of the body times out, the result has
  \<^verbatim>\<open>is_regex_pattern_compliant\<close> unset.
\<close>

theorem probe_method_and_compliance:
  "(p = None \<or> p = Some [] \<longrightarrow>
      requests (snd (check_website_availability e u p s)) =
        requests s @ [Request HEAD (''https://'' @ u)]
      \<and> (\<forall>r. fst (check_website_availability e u p s) = Inr (Some r) \<longrightarrow>
             is_regex_pattern_compliant r = None))
   \<and> (\<forall>pat. p = Some pat \<and> pat \<noteq> [] \<longrightarrow>
      (\<exists>rest. requests (snd (check_website_availability e u p s)) =
         requests s @ Request GET (''https://'' @ u) # rest)
      \<and> (\<forall>resp body found.
            transport e (Suc (tick s)) GET (''https://'' @ u) = Inr resp
            \<and> body_text resp = Inr body \<and> re_search e pat body = Some found \<longrightarrow>
            requests (snd (check_website_availability e u p s)) =
              requests s @ [Request GET (''https://'' @ u), ReadBody (''https://'' @ u)]
            \<and> (\<exists>r. fst (check_website_availability e u p s) = Inr (Some r)
                  \<and> http_status_code r = status resp
                  \<and> is_regex_pattern_compliant r = Some found))
      \<and> (\<forall>r. fst (check_website_availability e u p s) = Inr (Some r)
               \<and> \<not> probe_times_out e (tick s) u p \<longrightarrow>
            (\<exists>resp body. transport e (Suc (tick s)) GET (''https://'' @ u) = Inr resp
               \<and> body_text resp = Inr body
               \<and> is_regex_pattern_compliant r = re_search e pat body))
      \<and> (probe_times_out e (tick s) u p \<longrightarrow>
            (\<exists>r. fst (check_website_availability e u p s) = Inr (Some r)
               \<and> is_regex_pattern_compliant r = None)))"
proof (intro conjI allI impI; (elim conjE)?)
  assume "p = None \<or> p = Some []"
  then show "requests (snd (check_website_availability e u p s)) =
        requests s @ [Request HEAD (''https://'' @ u)]"
    by (rule probe_head_requests)
next
  fix r
  assume "p = None \<or> p = Some []" "fst (check_website_availability e u p s) = Inr (Some r)"
  then show "is_regex_pattern_compliant r = None"
    by (rule probe_head_compliance)
next
  fix pat
  assume "p = Some pat" "pat \<noteq> []"
  then show "\<exists>rest. requests (snd (check_website_availability e u p s)) =
         requests s @ Request GET (''https://'' @ u) # rest"
    by (rule probe_get_first)
next
  fix pat resp body found
  assume a: "p = Some pat" "pat \<noteq> []"
    "transport e (Suc (tick s)) GET (''https://'' @ u) = Inr resp"
    "body_text resp = Inr body" "re_search e pat body = Some found"
  from probe_get_answers [OF a]
  show "requests (snd (check_website_availability e u p s)) =
              requests s @ [Request GET (''https://'' @ u), ReadBody (''https://'' @ u)]"
    by simp
  from probe_get_answers [OF a]
  show "\<exists>r. fst (check_website_availability e u p s) = Inr (Some r)
                  \<and> http_status_code r = status resp
                  \<and> is_regex_pattern_compliant r = Some found"
    by simp
next
  fix pat r
  assume "p = Some pat" "pat \<noteq> []" "fst (check_website_availability e u p s) = Inr (Some r)"
    "\<not> probe_times_out e (tick s) u p"
  from probe_get_result [OF this]
  show "\<exists>resp body. transport e (Suc (tick s)) GET (''https://'' @ u) = Inr resp
               \<and> body_text resp = Inr body
               \<and> is_regex_pattern_compliant r = re_search e pat body"
    by blast
next
  fix pat
  assume "probe_times_out e (tick s) u p"
  from timed_out_result [OF this]
  show "\<exists>r. fst (check_website_availability e u p s) = Inr (Some r)
               \<and> is_regex_pattern_compliant r = None"
    by blast
qed

text \<open>
  At concrete inputs: no pattern (HEAD, unset); the pattern \<open>foo\<close>, found inside the body
  \<open>a foo b\<close> though it is not the whole body (GET, body read, true); the pattern \<open>bar\<close>,
  not found (false).
\<close>

theorem probe_method_and_compliance_witness:
  "requests (snd (check_website_availability example_env ''example.org'' None initial_state)) =
     [Request HEAD ''https://example.org'']
   \<and> fst (check_website_availability example_env ''example.org'' None initial_state) =
     Inr (Some \<lparr>request_timestamp = 0, response_timestamp = 2000000, response_time = 2,
                 http_status_code = 200, url = None, website_id = None,
                 is_regex_pattern_compliant = None\<rparr>)
   \<and> transport example_env (Suc (tick initial_state)) GET ''https://example.org'' =
       Inr \<lparr>status = 200, body_text = Inr ''a foo b''\<rparr>
   \<and> re_search example_env ''foo'' ''a foo b'' = Some True
   \<and> ''foo'' \<noteq> ''a foo b''
   \<and> requests (snd (check_website_availability example_env ''example.org'' (Some ''foo'')
        initial_state)) =
     [Request GET ''https://example.org'', ReadBody ''https://example.org'']
   \<and> fst (check_website_availability example_env ''example.org'' (Some ''foo'') initial_state) =
     Inr (Some \<lparr>request_timestamp = 0, response_timestamp = 3000000, response_time = 3,
                 http_status_code = 200, url = None, website_id = None,
                 is_regex_pattern_compliant = Some True\<rparr>)
   \<and> fst (check_website_availability example_env ''example.org'' (Some ''bar'') initial_state) =
     Inr (Some \<lparr>request_timestamp = 0, response_timestamp = 3000000, response_time = 3,
                 http_status_code = 200, url = None, website_id = None,
                 is_regex_pattern_compliant = Some False\<rparr>)"
  using probe_method_and_compliance [of None example_env "''example.org''" initial_state]
    probe_method_and_compliance [of "Some ''foo''" example_env "''example.org''" initial_state]
    probe_method_and_compliance [of "Some ''bar''" example_env "''example.org''" initial_state]
  by (simp add: example_defs probe_defs)

text \<open>
  Claim C6 as stated fails: a pattern is configured and the GET times out; the probe
  returns a result, no body was read, and \<^verbatim>\<open>is_regex_pattern_compliant\<close> is unset, not
  the outcome of a search.
\<close>

theorem compliance_unset_when_get_times_out:
  "(case check_website_availability unresponsive_env ''example.org'' (Some ''foo'') initial_state of
      (Inr (Some r), s') \<Rightarrow>
         is_regex_pattern_compliant r = None
         \<and> requests s' = [Request GET ''https://example.org'']
    | (Inr None, s') \<Rightarrow> False
    | (Inl err, s') \<Rightarrow> False)"
  by (simp add: example_defs unresponsive_env_def probe_defs)

section \<open>Site tasks under the event loop\<close>

lemma scheme_attempt_frame:
  "monitoring_results (snd (scheme_attempt e u p scheme s)) = monitoring_results s
   \<and> tasks (snd (scheme_attempt e u p scheme s)) = tasks s
   \<and> sink_calls (snd (scheme_attempt e u p scheme s)) = sink_calls s"
  by (simp add: probe_defs split: prod.splits sum.splits error.splits option.splits)

lemma probe_frame:
  "monitoring_results (snd (check_website_availability e u p s)) = monitoring_results s
   \<and> tasks (snd (check_website_availability e u p s)) = tasks s
   \<and> sink_calls (snd (check_website_availability e u p s)) = sink_calls s"
  using scheme_attempt_frame [of e u p "''https''" s]
  by (auto simp: probe_eq_first_attempt split: prod.splits flow.splits)

lemma site_iteration_effect:
  "tasks (snd (site_iteration e wd s)) = tasks s
   \<and> sink_calls (snd (site_iteration e wd s)) = sink_calls s
   \<and> (case fst (site_iteration e wd s) of
         Inl err \<Rightarrow> monitoring_results (snd (site_iteration e wd s)) = monitoring_results s
       | Inr u \<Rightarrow> (\<exists>r. monitoring_results (snd (site_iteration e wd s)) =
                        monitoring_results s @ [r]
                      \<and> url r = Some (wd_url wd) \<and> website_id r = Some (wd_id wd)))"
  using probe_frame [of e "wd_url wd" "wd_regexp_pattern wd" s]
  by (auto simp: site_iteration_def split: prod.splits sum.splits option.splits)


lemma set_task_state_sites:
  "map site (tasks (set_task_state i st s)) = map site (tasks s)"
proof (cases "i < length (tasks s)")
  case True
  then have "(map site (tasks s))[i := site (tasks s ! i)] = map site (tasks s)"
    by (metis list_update_id nth_map)
  then show ?thesis by (simp add: set_task_state_def map_update)
next
  case False
  then show ?thesis by (simp add: set_task_state_def list_update_beyond)
qed

lemma set_task_state_other:
  "monitoring_results (set_task_state i st s) = monitoring_results s
   \<and> requests (set_task_state i st s) = requests s
   \<and> sink_calls (set_task_state i st s) = sink_calls s
   \<and> logged (set_task_state i st s) = logged s"
  by (simp add: set_task_state_def)

lemma set_task_state_looping:
  assumes "\<forall>t \<in> set (tasks s). task_state t = Looping \<longrightarrow> monitored (site t)"
    and "st = Looping \<longrightarrow> monitored (site (tasks s ! i))"
  shows "\<forall>t \<in> set (tasks (set_task_state i st s)). task_state t = Looping \<longrightarrow> monitored (site t)"
proof
  fix t
  assume "t \<in> set (tasks (set_task_state i st s))"
  then have "t \<in> set ((tasks s)[i := (tasks s ! i)\<lparr>task_state := st\<rparr>])"
    by (simp add: set_task_state_def)
  then have "t \<in> insert ((tasks s ! i)\<lparr>task_state := st\<rparr>) (set (tasks s))"
    using set_update_subset_insert by fastforce
  with assms show "task_state t = Looping \<longrightarrow> monitored (site t)"
    by auto
qed

lemma resume_looping_eq:
  "resume_looping e i wd s =
     (case site_iteration e wd s of
        (Inl err, s') \<Rightarrow> set_task_state i (Failed err) s'
      | (Inr u, s') \<Rightarrow> set_task_state i Looping s')"
  by (simp add: resume_looping_def task_after_def split: prod.splits sum.splits)

lemma resume_task_eq:
  assumes "i < length (tasks s)"
  shows "resume_task e i s =
     (case task_state (tasks s ! i) of
        Pending \<Rightarrow>
          (if monitored (site (tasks s ! i))
           then resume_looping e i (site (tasks s ! i)) s
           else set_task_state i Done (logging (LogSkipMonitoring (wd_url (site (tasks s ! i)))) s))
      | Looping \<Rightarrow> resume_looping e i (site (tasks s ! i)) s
      | Done \<Rightarrow> s
      | Failed err \<Rightarrow> s)"
  using assms
  by (auto simp: resume_task_def resume_looping_def check_website_recurrently_def monitored_def
        task_after_def split: task_status.splits)

lemma resume_looping_invariant:
  assumes inv: "results_from_monitored_sites s"
    and i: "i < length (tasks s)" and m: "monitored (site (tasks s ! i))"
  shows "results_from_monitored_sites (resume_looping e i (site (tasks s ! i)) s)"
proof -
  let ?wd = "site (tasks s ! i)"
  obtain out s' where it: "site_iteration e ?wd s = (out, s')"
    by (cases "site_iteration e ?wd s")
  from site_iteration_effect [of e ?wd s] it
  have tk: "tasks s' = tasks s"
    by simp
  from site_iteration_effect [of e ?wd s] it
  have mr: "(case out of Inl err \<Rightarrow> monitoring_results s' = monitoring_results s
              | Inr u \<Rightarrow> (\<exists>r. monitoring_results s' = monitoring_results s @ [r]
                          \<and> url r = Some (wd_url ?wd) \<and> website_id r = Some (wd_id ?wd)))"
    by (cases out) simp_all
  from i have mem: "?wd \<in> set (map site (tasks s))" by simp
  have res: "\<forall>r \<in> set (monitoring_results s'). \<exists>wd \<in> set (map site (tasks s)).
            monitored wd \<and> website_id r = Some (wd_id wd) \<and> url r = Some (wd_url wd)"
  proof (cases out)
    case (Inl err)
    with mr inv show ?thesis by (simp add: results_from_monitored_sites_def)
  next
    case (Inr u)
    with mr obtain r where r: "monitoring_results s' = monitoring_results s @ [r]"
      "url r = Some (wd_url ?wd)" "website_id r = Some (wd_id ?wd)" by auto
    with inv mem m show ?thesis
      by (auto simp: results_from_monitored_sites_def)
  qed
  have loop: "\<forall>t \<in> set (tasks s'). task_state t = Looping \<longrightarrow> monitored (site t)"
    using inv tk by (simp add: results_from_monitored_sites_def)
  have "results_from_monitored_sites (set_task_state i st s')" for st
  proof -
    have "\<forall>t \<in> set (tasks (set_task_state i st s')). task_state t = Looping \<longrightarrow> monitored (site t)"
      using loop m tk by (intro set_task_state_looping) simp_all
    with res tk show ?thesis
      unfolding results_from_monitored_sites_def
      by (simp add: set_task_state_sites set_task_state_other del: set_map)
  qed
  with it show ?thesis
    by (simp add: resume_looping_eq split: sum.splits)
qed

lemma resume_task_invariant:
  assumes inv: "results_from_monitored_sites s"
  shows "results_from_monitored_sites (resume_task e i s)"
proof (cases "i < length (tasks s)")
  case False
  with inv show ?thesis by (simp add: resume_task_def)
next
  case True
  let ?wd = "site (tasks s ! i)"
  have skip: "results_from_monitored_sites
      (set_task_state i Done (logging (LogSkipMonitoring (wd_url ?wd)) s))"
  proof -
    let ?s = "logging (LogSkipMonitoring (wd_url ?wd)) s"
    have "\<forall>t \<in> set (tasks (set_task_state i Done ?s)). task_state t = Looping \<longrightarrow> monitored (site t)"
      using inv by (intro set_task_state_looping) (simp_all add: results_from_monitored_sites_def logging_def)
    with inv show ?thesis
      unfolding results_from_monitored_sites_def
      by (simp add: set_task_state_sites set_task_state_other logging_def del: set_map)
  qed
  show ?thesis
  proof (cases "task_state (tasks s ! i)")
    case Pending
    with True skip resume_looping_invariant [OF inv True] show ?thesis
      by (simp add: resume_task_eq)
  next
    case Looping
    with True inv have "monitored ?wd"
      by (auto simp: results_from_monitored_sites_def)
    with Looping True resume_looping_invariant [OF inv True] show ?thesis
      by (simp add: resume_task_eq)
  next
    case Done
    with True inv show ?thesis by (simp add: resume_task_eq)
  next
    case (Failed err)
    with True inv show ?thesis by (simp add: resume_task_eq)
  qed
qed

lemma sink_keeps_tasks:
  "tasks (snd (batch_insert_monitoring_data e batch s)) = tasks s"
  by (simp add: batch_insert_monitoring_data_def Let_def advance_def logging_def
      split: sum.splits option.splits error.splits)

lemma save_tasks:
  "tasks (snd (save_website_monitoring_results e s)) = tasks s"
proof -
  let ?s1 = "s\<lparr>monitoring_results := drop RESULTS_BATCH_SAVE_SIZE (monitoring_results s)\<rparr>"
  let ?b = "take RESULTS_BATCH_SAVE_SIZE (monitoring_results s)"
  have "tasks (snd (batch_insert_monitoring_data e ?b ?s1)) = tasks ?s1"
    by (rule sink_keeps_tasks)
  then show ?thesis
    by (cases "batch_insert_monitoring_data e ?b ?s1")
       (auto simp: save_website_monitoring_results_def pop_batch_eq logging_def
             split: sum.splits)
qed

lemma flush_cycle_effect:
  "tasks (flush_cycle e s) = tasks s
   \<and> monitoring_results (flush_cycle e s) = drop RESULTS_BATCH_SAVE_SIZE (monitoring_results s)"
  using save_tasks [of e s] save_buffer [of e s]
  by (cases "save_website_monitoring_results e s")
     (auto simp: flush_cycle_def logging_def split: sum.splits)

lemma monitor_step_effect:
  "tasks (monitor_step e s) = tasks s
   \<and> (\<exists>n. monitoring_results (monitor_step e s) = drop n (monitoring_results s))"
proof -
  have "\<exists>n. monitoring_results s = drop n (monitoring_results s)"
    by (rule exI [of _ 0]) simp
  then show ?thesis
    by (auto simp: monitor_step_def Let_def logging_def flush_cycle_effect)
qed

lemma monitor_step_invariant:
  assumes "results_from_monitored_sites s"
  shows "results_from_monitored_sites (monitor_step e s)"
proof -
  from monitor_step_effect [of e s] obtain n where
    t: "tasks (monitor_step e s) = tasks s"
    and b: "monitoring_results (monitor_step e s) = drop n (monitoring_results s)"
    by blast
  have "set (drop n (monitoring_results s)) \<subseteq> set (monitoring_results s)"
    by (rule set_drop_subset)
  with assms t b show ?thesis
    unfolding results_from_monitored_sites_def by (simp del: set_map) blast
qed

lemma run_invariant:
  "results_from_monitored_sites s \<Longrightarrow> results_from_monitored_sites (run e schedule s)"
proof (induction schedule arbitrary: s)
  case Nil
  then show ?case by simp
next
  case (Cons a schedule)
  then show ?case
    by (cases a) (simp_all add: monitor_step_invariant resume_task_invariant)
qed

lemma resume_task_sites: "map site (tasks (resume_task e i s)) = map site (tasks s)"
proof (cases "i < length (tasks s)")
  case False
  then show ?thesis by (simp add: resume_task_def)
next
  case True
  have l: "map site (tasks (resume_looping e i wd s)) = map site (tasks s)" for wd
    using site_iteration_effect [of e wd s]
    by (cases "site_iteration e wd s")
       (auto simp: resume_looping_eq set_task_state_sites split: sum.splits)
  from True show ?thesis
    by (simp add: resume_task_eq l set_task_state_sites logging_def split: task_status.splits)
qed

lemma run_sites: "map site (tasks (run e schedule s)) = map site (tasks s)"
proof (induction schedule arbitrary: s)
  case Nil
  then show ?case by simp
next
  case (Cons a schedule)
  then show ?case
    by (cases a) (simp_all add: resume_task_sites monitor_step_effect)
qed

lemma launch_all_effect:
  "tasks (launch_all sites s) = tasks s @ map (\<lambda>wd. \<lparr>site = wd, task_state = Pending\<rparr>) sites
   \<and> monitoring_results (launch_all sites s) = monitoring_results s"
  unfolding launch_all_def
  by (induction sites arbitrary: s) (simp_all add: launch_website_monitoring_def)

lemma launched_invariant:
  "results_from_monitored_sites (launch_all sites initial_state)"
  by (auto simp: results_from_monitored_sites_def launch_all_effect initial_state_def)

lemma launched_sites: "map site (tasks (launch_all sites initial_state)) = sites"
  by (simp add: launch_all_effect initial_state_def comp_def)

section \<open>Sites without an interval\<close>

text \<open>
  Claim C5. For a site whose interval is absent or zero, \<^verbatim>\<open>check_website_recurrently\<close>
  returns at once, whatever number of passes it is given: it has logged the skip and
  changed nothing else, so no request was issued (the prober was not called) and nothing
  was appended; it returned, no exception left it. Its task, once resumed, is done and
  every later resumption changes nothing. And under any schedule of the event loop, started
  from the launch of any list of sites with distinct ids that holds the site, no result in
  the deque carries the id of the site; the schedule being any, this holds at every moment
  of every run.
\<close>

theorem inactive_site_is_skipped:
  assumes "wd_interval wd = None \<or> wd_interval wd = Some 0"
  shows "check_website_recurrently e wd passes s =
           (Returned, s\<lparr>logged := logged s @ [LogSkipMonitoring (wd_url wd)]\<rparr>)
    \<and> (i < length (tasks s) \<and> tasks s ! i = \<lparr>site = wd, task_state = Pending\<rparr> \<longrightarrow>
          resume_task e i s =
            s\<lparr>logged := logged s @ [LogSkipMonitoring (wd_url wd)],
              tasks := (tasks s)[i := \<lparr>site = wd, task_state = Done\<rparr>]\<rparr>
          \<and> resume_task e i (resume_task e i s) = resume_task e i s)
    \<and> (wd \<in> set sites \<and> distinct (map wd_id sites) \<longrightarrow>
          (\<forall>r \<in> set (monitoring_results (run e schedule (launch_all sites initial_state))).
              website_id r \<noteq> Some (wd_id wd)))"
proof (intro conjI impI ballI; (elim conjE)?)
  from assms show "check_website_recurrently e wd passes s =
           (Returned, s\<lparr>logged := logged s @ [LogSkipMonitoring (wd_url wd)]\<rparr>)"
    by (auto simp: check_website_recurrently_def logging_def)
next
  assume i: "i < length (tasks s)" and t: "tasks s ! i = \<lparr>site = wd, task_state = Pending\<rparr>"
  from assms have n: "\<not> monitored wd" by (auto simp: monitored_def)
  with i t show r: "resume_task e i s =
            s\<lparr>logged := logged s @ [LogSkipMonitoring (wd_url wd)],
              tasks := (tasks s)[i := \<lparr>site = wd, task_state = Done\<rparr>]\<rparr>"
    by (simp add: resume_task_eq set_task_state_def logging_def)
  from i show "resume_task e i (resume_task e i s) = resume_task e i s"
    unfolding r by (simp add: resume_task_eq)
next
  fix r
  assume wd: "wd \<in> set sites" and d: "distinct (map wd_id sites)"
    and r: "r \<in> set (monitoring_results (run e schedule (launch_all sites initial_state)))"
  let ?s = "run e schedule (launch_all sites initial_state)"
  have "results_from_monitored_sites ?s"
    by (intro run_invariant launched_invariant)
  with r obtain wd' where wd': "wd' \<in> set (map site (tasks ?s))" "monitored wd'"
      "website_id r = Some (wd_id wd')"
    unfolding results_from_monitored_sites_def by blast
  from wd'(1) have in_sites: "wd' \<in> set sites"
    by (simp only: run_sites launched_sites)
  from assms have "\<not> monitored wd" by (auto simp: monitored_def)
  with wd'(2) have "wd' \<noteq> wd" by auto
  with d wd in_sites have "wd_id wd' \<noteq> wd_id wd"
    by (meson distinct_map inj_onD)
  with wd'(3) show "website_id r \<noteq> Some (wd_id wd)" by simp
qed

text \<open>
  Two sites are launched, the second with interval 0; both tasks are resumed twice. The
  second task is done after its first resumption, no request went to its site, and the two
  results in the deque are of the first site.
\<close>

theorem inactive_site_is_skipped_witness:
  "wd_interval inactive_site = Some 0
   \<and> check_website_recurrently example_env inactive_site 3 initial_state =
       (Returned, initial_state\<lparr>logged := [LogSkipMonitoring ''example.net'']\<rparr>)
   \<and> tasks (launch_all [active_site, inactive_site] initial_state) ! 1 =
       \<lparr>site = inactive_site, task_state = Pending\<rparr>
   \<and> tasks (resume_task example_env 1 (launch_all [active_site, inactive_site] initial_state)) =
       [\<lparr>site = active_site, task_state = Pending\<rparr>, \<lparr>site = inactive_site, task_state = Done\<rparr>]
   \<and> inactive_site \<in> set [active_site, inactive_site]
   \<and> distinct (map wd_id [active_site, inactive_site])
   \<and> map website_id (monitoring_results
        (run example_env [SiteTask 1, SiteTask 0, SiteTask 1, SiteTask 0]
           (launch_all [active_site, inactive_site] initial_state))) = [Some 1, Some 1]
   \<and> requests (run example_env [SiteTask 1, SiteTask 1] 
           (launch_all [active_site, inactive_site] initial_state)) = []"
  using inactive_site_is_skipped [of inactive_site example_env 3
      "launch_all [active_site, inactive_site] initial_state" 1
      "[active_site, inactive_site]" "[SiteTask 1, SiteTask 0, SiteTask 1, SiteTask 0]"]
  by (simp add: active_site_def inactive_site_def example_defs launch_all_def
        launch_website_monitoring_def resume_task_def resume_looping_def task_after_def
        set_task_state_def
        check_website_recurrently_def site_iteration_def probe_defs)

section \<open>Connection failures\<close>

lemma probe_client_error:
  assumes "transport e (Suc (tick s))
             (if p = None \<or> p = Some [] then HEAD else GET) (''https://'' @ u) = Inl (ClientError m)"
  shows "check_website_availability e u p s =
    (Inl (ClientError m),
     s\<lparr>tick := Suc (Suc (tick s)),
       requests := requests s @
         [Request (if p = None \<or> p = Some [] then HEAD else GET) (''https://'' @ u)],
       logged := logged s @ [LogErrorConnecting u (ClientError m)]\<rparr>)"
proof (cases "p = None \<or> p = Some []")
  case True
  with assms probe_head_raises [of p e s u "ClientError m"] show ?thesis by simp
next
  case False
  then obtain pat where "p = Some pat" "pat \<noteq> []" by auto
  with assms probe_get_raises [of p pat e s u "ClientError m"] show ?thesis by simp
qed

lemma resume_task_others:
  "length (tasks (resume_task e j s)) = length (tasks s)
   \<and> (j \<noteq> i \<longrightarrow> tasks (resume_task e j s) ! i = tasks s ! i)"
proof (cases "j < length (tasks s)")
  case False
  then show ?thesis by (simp add: resume_task_def)
next
  case True
  have l: "length (tasks (resume_looping e j wd s)) = length (tasks s)
      \<and> (j \<noteq> i \<longrightarrow> tasks (resume_looping e j wd s) ! i = tasks s ! i)" for wd
    using site_iteration_effect [of e wd s]
    by (cases "site_iteration e wd s")
       (auto simp: resume_looping_eq set_task_state_def split: sum.splits)
  from True show ?thesis
    by (simp add: resume_task_eq l set_task_state_def logging_def split: task_status.splits)
qed

lemma finished_task_is_not_resumed:
  assumes "task_state (tasks s ! i) = Failed err \<or> task_state (tasks s ! i) = Done"
  shows "resume_task e i s = s"
  using assms by (auto simp: resume_task_def)

lemma finished_task_stays:
  assumes "task_state (tasks s ! i) = Failed err"
  shows "task_state (tasks (run e schedule s) ! i) = Failed err
         \<and> run e schedule s = run e (removeAll (SiteTask i) schedule) s"
  using assms
proof (induction schedule arbitrary: s)
  case Nil
  then show ?case by simp
next
  case (Cons a schedule)
  show ?case
  proof (cases a)
    case Scheduler
    from Cons.prems have "task_state (tasks (monitor_step e s) ! i) = Failed err"
      by (simp add: monitor_step_effect)
    from Cons.IH [OF this] Scheduler show ?thesis by auto
  next
    case (SiteTask j)
    show ?thesis
    proof (cases "j = i")
      case True
      with Cons.prems have "resume_task e j s = s"
        by (simp add: finished_task_is_not_resumed)
      with Cons.IH [OF Cons.prems] SiteTask True show ?thesis by auto
    next
      case False
      with Cons.prems resume_task_others [of e j s i]
      have "task_state (tasks (resume_task e j s) ! i) = Failed err" by simp
      from Cons.IH [OF this] SiteTask False show ?thesis by auto
    qed
  qed
qed

text \<open>
  Claim C4. Let the request of the probe of a monitored site (HEAD without a pattern, GET
  with one) raise an \<^verbatim>\<open>aiohttp.ClientError\<close>. Then the probe returns no result: it logs the
  error and raises it. \<^verbatim>\<open>check_website_recurrently\<close> ends with that exception whatever
  number of passes remain, and appends nothing. The task of the site becomes failed, every
  other task is as it was, and the deque is as it was. Under any later schedule the task
  stays failed, and the run is the run of that schedule without the resumptions of this
  task: it is never started again, and the other tasks and the scheduler run as if it
  were not there.
\<close>

theorem connection_failure_ends_site_task:
  assumes fail: "transport e (Suc (tick s))
        (if wd_regexp_pattern wd = None \<or> wd_regexp_pattern wd = Some [] then HEAD else GET)
        (''https://'' @ wd_url wd) = Inl (ClientError m)"
    and active: "monitored wd"
    and i: "i < length (tasks s)" and wd: "site (tasks s ! i) = wd"
    and live: "task_state (tasks s ! i) = Pending \<or> task_state (tasks s ! i) = Looping"
  shows "fst (check_website_availability e (wd_url wd) (wd_regexp_pattern wd) s) =
           Inl (ClientError m)
    \<and> logged (snd (check_website_availability e (wd_url wd) (wd_regexp_pattern wd) s)) =
           logged s @ [LogErrorConnecting (wd_url wd) (ClientError m)]
    \<and> fst (check_website_recurrently e wd (Suc passes) s) = Crashed (ClientError m)
    \<and> monitoring_results (snd (check_website_recurrently e wd (Suc passes) s)) =
           monitoring_results s
    \<and> tasks (resume_task e i s) =
           (tasks s)[i := \<lparr>site = wd, task_state = Failed (ClientError m)\<rparr>]
    \<and> monitoring_results (resume_task e i s) = monitoring_results s
    \<and> task_state (tasks (run e schedule (resume_task e i s)) ! i) = Failed (ClientError m)
    \<and> run e schedule (resume_task e i s) =
           run e (removeAll (SiteTask i) schedule) (resume_task e i s)"
proof -
  let ?s1 = "s\<lparr>tick := Suc (Suc (tick s)),
       requests := requests s @
         [Request (if wd_regexp_pattern wd = None \<or> wd_regexp_pattern wd = Some [] then HEAD else GET)
            (''https://'' @ wd_url wd)],
       logged := logged s @ [LogErrorConnecting (wd_url wd) (ClientError m)]\<rparr>"
  from probe_client_error [OF fail]
  have probe: "check_website_availability e (wd_url wd) (wd_regexp_pattern wd) s =
      (Inl (ClientError m), ?s1)" .
  then have iter: "site_iteration e wd s = (Inl (ClientError m), ?s1)"
    by (simp add: site_iteration_def)
  then have loop: "monitoring_loop e wd (Suc passes) s = (Crashed (ClientError m), ?s1)"
    by simp
  with active have rec: "check_website_recurrently e wd (Suc passes) s = (Crashed (ClientError m), ?s1)"
    by (simp add: check_website_recurrently_def monitored_def)
  from iter have "resume_looping e i wd s = set_task_state i (Failed (ClientError m)) ?s1"
    by (simp add: resume_looping_eq)
  with i wd live active
  have res: "resume_task e i s = set_task_state i (Failed (ClientError m)) ?s1"
    by (auto simp: resume_task_eq)
  have upd: "(tasks s ! i)\<lparr>task_state := Failed (ClientError m)\<rparr> =
      \<lparr>site = wd, task_state = Failed (ClientError m)\<rparr>"
    using wd by (cases "tasks s ! i") simp
  have tk: "tasks (resume_task e i s) =
      (tasks s)[i := \<lparr>site = wd, task_state = Failed (ClientError m)\<rparr>]"
    unfolding res by (simp add: set_task_state_def upd)
  with i have failed: "task_state (tasks (resume_task e i s) ! i) = Failed (ClientError m)"
    by simp
  have buf: "monitoring_results (resume_task e i s) = monitoring_results s"
    unfolding res by (simp add: set_task_state_def)
  from finished_task_stays [OF failed, of e schedule]
  have stays: "task_state (tasks (run e schedule (resume_task e i s)) ! i) = Failed (ClientError m)"
    and skipped: "run e schedule (resume_task e i s) =
           run e (removeAll (SiteTask i) schedule) (resume_task e i s)"
    by blast+
  from probe rec tk buf stays
  have "fst (check_website_availability e (wd_url wd) (wd_regexp_pattern wd) s) =
           Inl (ClientError m)
    \<and> logged (snd (check_website_availability e (wd_url wd) (wd_regexp_pattern wd) s)) =
           logged s @ [LogErrorConnecting (wd_url wd) (ClientError m)]
    \<and> fst (check_website_recurrently e wd (Suc passes) s) = Crashed (ClientError m)
    \<and> monitoring_results (snd (check_website_recurrently e wd (Suc passes) s)) =
           monitoring_results s
    \<and> tasks (resume_task e i s) =
           (tasks s)[i := \<lparr>site = wd, task_state = Failed (ClientError m)\<rparr>]
    \<and> monitoring_results (resume_task e i s) = monitoring_results s
    \<and> task_state (tasks (run e schedule (resume_task e i s)) ! i) = Failed (ClientError m)"
    by simp
  with skipped show ?thesis by blast
qed

text \<open>
  Two sites are launched; every connection to the second is refused. Its probe logs and
  raises, its task fails at its first resumption and stays failed, and the first site is
  probed twice.
\<close>

theorem connection_failure_ends_site_task_witness:
  "transport unreachable_env (Suc (tick (launch_all [active_site, unreachable_site] initial_state)))
      GET ''https://example.net'' = Inl (ClientError ''Cannot connect to host'')
   \<and> monitored unreachable_site
   \<and> tasks (launch_all [active_site, unreachable_site] initial_state) ! 1 =
       \<lparr>site = unreachable_site, task_state = Pending\<rparr>
   \<and> check_website_availability unreachable_env ''example.net'' (Some ''foo'')
        (launch_all [active_site, unreachable_site] initial_state) =
       (Inl (ClientError ''Cannot connect to host''),
        (launch_all [active_site, unreachable_site] initial_state)
          \<lparr>tick := 2, requests := [Request GET ''https://example.net''],
            logged := [LogErrorConnecting ''example.net'' (ClientError ''Cannot connect to host'')]\<rparr>)
   \<and> tasks (resume_task unreachable_env 1
        (launch_all [active_site, unreachable_site] initial_state)) =
       [\<lparr>site = active_site, task_state = Pending\<rparr>,
        \<lparr>site = unreachable_site, task_state = Failed (ClientError ''Cannot connect to host'')\<rparr>]
   \<and> map task_state (tasks (run unreachable_env [SiteTask 1, SiteTask 0, SiteTask 1, SiteTask 0]
        (launch_all [active_site, unreachable_site] initial_state))) =
       [Looping, Failed (ClientError ''Cannot connect to host'')]
   \<and> map website_id (monitoring_results
        (run unreachable_env [SiteTask 1, SiteTask 0, SiteTask 1, SiteTask 0]
           (launch_all [active_site, unreachable_site] initial_state))) = [Some 1, Some 1]"
  using connection_failure_ends_site_task [of unreachable_env
      "launch_all [active_site, unreachable_site] initial_state" unreachable_site
      "''Cannot connect to host''" 1 0 "[SiteTask 0, SiteTask 1, SiteTask 0]"]
  by (simp add: active_site_def unreachable_site_def unreachable_env_def example_defs
        launch_all_def monitored_def
        launch_website_monitoring_def resume_task_def resume_looping_def task_after_def
        set_task_state_def
        check_website_recurrently_def site_iteration_def probe_defs)

section \<open>A failing sink\<close>

lemma sink_outcome_by_tick:
  "tick s = tick s' \<Longrightarrow>
     fst (batch_insert_monitoring_data e batch s) = fst (batch_insert_monitoring_data e batch s')"
  by (simp add: batch_insert_monitoring_data_def Let_def advance_def logging_def
      split: sum.splits option.splits error.splits)

lemma sink_failure_commits_nothing:
  "fst (batch_insert_monitoring_data e batch s) = Inl err \<Longrightarrow>
     db_rows (snd (batch_insert_monitoring_data e batch s)) = db_rows s"
  by (auto simp: batch_insert_monitoring_data_def Let_def advance_def logging_def
      split: sum.splits option.splits error.splits)

lemma sink_success:
  "fst (batch_insert_monitoring_data e batch s) = Inr u \<Longrightarrow>
     logged (snd (batch_insert_monitoring_data e batch s)) = logged s
     \<and> db_rows (snd (batch_insert_monitoring_data e batch s)) = db_rows s @ batch"
  by (auto simp: batch_insert_monitoring_data_def Let_def advance_def logging_def
      split: sum.splits option.splits error.splits)

lemma sink_keeps_scheduler:
  "scheduler_waiting (snd (batch_insert_monitoring_data e batch s)) = scheduler_waiting s"
  by (simp add: batch_insert_monitoring_data_def Let_def advance_def logging_def
      split: sum.splits option.splits error.splits)

lemma sink_log_grows:
  "\<exists>more. logged (snd (batch_insert_monitoring_data e batch s)) = logged s @ more"
  by (simp add: batch_insert_monitoring_data_def Let_def advance_def logging_def
      split: sum.splits option.splits error.splits)

lemma save_eq:
  "save_website_monitoring_results e s =
     (case batch_insert_monitoring_data e (take RESULTS_BATCH_SAVE_SIZE (monitoring_results s))
             (s\<lparr>monitoring_results := drop RESULTS_BATCH_SAVE_SIZE (monitoring_results s)\<rparr>) of
        (Inl err, s') \<Rightarrow> (Inl err, s')
      | (Inr u, s') \<Rightarrow>
          (Inr (),
           logging (LogSaved (length (take RESULTS_BATCH_SAVE_SIZE (monitoring_results s)))
                      (sorted_descending (foldl increment []
                         (map http_status_code
                            (take RESULTS_BATCH_SAVE_SIZE (monitoring_results s)))))) s'))"
  by (simp add: save_website_monitoring_results_def pop_batch_eq)

lemma save_raises:
  assumes "fst (batch_insert_monitoring_data e
                  (take RESULTS_BATCH_SAVE_SIZE (monitoring_results s)) s) = Inl err"
  shows "fst (save_website_monitoring_results e s) = Inl err
    \<and> db_rows (snd (save_website_monitoring_results e s)) = db_rows s
    \<and> scheduler_waiting (snd (save_website_monitoring_results e s)) = scheduler_waiting s
    \<and> (\<exists>more. logged (snd (save_website_monitoring_results e s)) = logged s @ more)"
proof -
  let ?b = "take RESULTS_BATCH_SAVE_SIZE (monitoring_results s)"
  let ?s1 = "s\<lparr>monitoring_results := drop RESULTS_BATCH_SAVE_SIZE (monitoring_results s)\<rparr>"
  obtain out s' where o: "batch_insert_monitoring_data e ?b ?s1 = (out, s')"
    by (cases "batch_insert_monitoring_data e ?b ?s1")
  from assms sink_outcome_by_tick [of ?s1 s e ?b] o have out: "out = Inl err" by simp
  from sink_failure_commits_nothing [of e ?b ?s1 err] o out have "db_rows s' = db_rows s" by simp
  moreover from sink_keeps_scheduler [of e ?b ?s1] o have "scheduler_waiting s' = scheduler_waiting s"
    by simp
  moreover from sink_log_grows [of e ?b ?s1] o have "\<exists>more. logged s' = logged s @ more" by simp
  ultimately show ?thesis using o out by (simp add: save_eq)
qed

lemma save_log_grows:
  "\<exists>more. logged (snd (save_website_monitoring_results e s)) = logged s @ more"
proof -
  let ?b = "take RESULTS_BATCH_SAVE_SIZE (monitoring_results s)"
  let ?s1 = "s\<lparr>monitoring_results := drop RESULTS_BATCH_SAVE_SIZE (monitoring_results s)\<rparr>"
  obtain out s' where o: "batch_insert_monitoring_data e ?b ?s1 = (out, s')"
    by (cases "batch_insert_monitoring_data e ?b ?s1")
  from sink_log_grows [of e ?b ?s1] o obtain more where "logged s' = logged s @ more" by auto
  with o show ?thesis
    by (cases out) (simp_all add: save_eq logging_def)
qed

lemma save_keeps_scheduler:
  "scheduler_waiting (snd (save_website_monitoring_results e s)) = scheduler_waiting s"
proof -
  let ?b = "take RESULTS_BATCH_SAVE_SIZE (monitoring_results s)"
  let ?s1 = "s\<lparr>monitoring_results := drop RESULTS_BATCH_SAVE_SIZE (monitoring_results s)\<rparr>"
  obtain out s' where o: "batch_insert_monitoring_data e ?b ?s1 = (out, s')"
    by (cases "batch_insert_monitoring_data e ?b ?s1")
  from sink_keeps_scheduler [of e ?b ?s1] o have "scheduler_waiting s' = scheduler_waiting s" by simp
  with o show ?thesis
    by (cases out) (simp_all add: save_eq logging_def)
qed

lemma flush_cycle_log_grows:
  "\<exists>more. logged (flush_cycle e s) = logged s @ more"
  using save_log_grows [of e s]
  by (cases "save_website_monitoring_results e s")
     (auto simp: flush_cycle_def logging_def split: sum.splits)

lemma flush_cycle_keeps_scheduler:
  "scheduler_waiting (flush_cycle e s) = scheduler_waiting s"
  using save_keeps_scheduler [of e s]
  by (cases "save_website_monitoring_results e s")
     (auto simp: flush_cycle_def logging_def split: sum.splits)

lemma flush_cycle_raises:
  assumes "fst (batch_insert_monitoring_data e
                  (take RESULTS_BATCH_SAVE_SIZE (monitoring_results s)) s) = Inl err"
  shows "logged (flush_cycle e s) =
           logged (snd (save_website_monitoring_results e s)) @ [LogCouldNotSave err]
    \<and> db_rows (flush_cycle e s) = db_rows s"
  using save_raises [OF assms]
  by (cases "save_website_monitoring_results e s") (auto simp: flush_cycle_def logging_def)

lemma monitor_step_starts_cycle:
  assumes "\<not> scheduler_waiting s"
  shows "\<exists>rest. logged (monitor_step e s) =
           logged s @ LogNumTasks (all_tasks e (tick s)) # rest"
proof -
  let ?s1 = "logging (LogNumTasks (all_tasks e (tick s))) s"
  from flush_cycle_log_grows [of e "?s1\<lparr>scheduler_waiting := False\<rparr>"]
  obtain more where "logged (flush_cycle e (?s1\<lparr>scheduler_waiting := False\<rparr>)) =
      logged s @ LogNumTasks (all_tasks e (tick s)) # more"
    by (auto simp: logging_def)
  with assms show ?thesis
    by (auto simp: monitor_step_def Let_def logging_def)
qed

text \<open>
  Claim C2. Let the deque be non-empty and let the sink, called with the batch, raise.
  Then \<^verbatim>\<open>save_website_monitoring_results\<close> raises that exception, the deque is left with
  exactly the results behind the batch (fewer than before: the popped results are not
  put back) and no row is committed, so the batch is in neither place. The \<^verbatim>\<open>try\<close> of the
  scheduler loop logs the exception, and so does the whole step of the loop: its last log
  record is the failure, the scheduler is not waiting but at the top of its loop, and its
  next step starts the next cycle by logging the number of tasks that the event loop
  reports then.
\<close>

theorem sink_failure_loses_batch:
  assumes nonempty: "monitoring_results s \<noteq> []"
    and raises: "fst (batch_insert_monitoring_data e
                        (take RESULTS_BATCH_SAVE_SIZE (monitoring_results s)) s) = Inl err"
  shows "fst (save_website_monitoring_results e s) = Inl err
    \<and> monitoring_results (snd (save_website_monitoring_results e s)) =
        drop RESULTS_BATCH_SAVE_SIZE (monitoring_results s)
    \<and> length (monitoring_results (snd (save_website_monitoring_results e s))) <
        length (monitoring_results s)
    \<and> db_rows (snd (save_website_monitoring_results e s)) = db_rows s
    \<and> monitoring_results (flush_cycle e s) = drop RESULTS_BATCH_SAVE_SIZE (monitoring_results s)
    \<and> logged (flush_cycle e s) =
        logged (snd (save_website_monitoring_results e s)) @ [LogCouldNotSave err]
    \<and> monitoring_results (monitor_step e s) = drop RESULTS_BATCH_SAVE_SIZE (monitoring_results s)
    \<and> db_rows (monitor_step e s) = db_rows s
    \<and> last (logged (monitor_step e s)) = LogCouldNotSave err
    \<and> \<not> scheduler_waiting (monitor_step e s)
    \<and> (\<exists>rest. logged (monitor_step e (monitor_step e s)) =
          logged (monitor_step e s) @
          LogNumTasks (all_tasks e (tick (monitor_step e s))) # rest)"
proof -
  from nonempty obtain s2 where step: "monitor_step e s = flush_cycle e s2"
    and same: "monitoring_results s2 = monitoring_results s" "tick s2 = tick s"
      "db_rows s2 = db_rows s" "\<not> scheduler_waiting s2"
    by (cases "scheduler_waiting s") (simp_all add: monitor_step_def Let_def logging_def)
  from raises same sink_outcome_by_tick [of s2 s e "take RESULTS_BATCH_SAVE_SIZE (monitoring_results s)"]
  have raises2: "fst (batch_insert_monitoring_data e
      (take RESULTS_BATCH_SAVE_SIZE (monitoring_results s2)) s2) = Inl err"
    by simp
  from nonempty have shorter:
    "length (drop RESULTS_BATCH_SAVE_SIZE (monitoring_results s)) < length (monitoring_results s)"
    by (simp add: RESULTS_BATCH_SAVE_SIZE_def)
  have waiting: "\<not> scheduler_waiting (monitor_step e s)"
    unfolding step using same by (simp add: flush_cycle_keeps_scheduler)
  from monitor_step_starts_cycle [OF waiting, of e]
  have "next": "\<exists>rest. logged (monitor_step e (monitor_step e s)) =
          logged (monitor_step e s) @
          LogNumTasks (all_tasks e (tick (monitor_step e s))) # rest" .
  from flush_cycle_raises [OF raises2]
  have "last (logged (monitor_step e s)) = LogCouldNotSave err"
    and "db_rows (monitor_step e s) = db_rows s"
    unfolding step by (simp_all add: same)
  moreover have "monitoring_results (monitor_step e s) =
      drop RESULTS_BATCH_SAVE_SIZE (monitoring_results s)"
    unfolding step by (simp add: flush_cycle_effect same)
  ultimately show ?thesis
    using save_raises [OF raises] flush_cycle_raises [OF raises] shorter waiting "next"
    by (simp add: save_buffer flush_cycle_effect)
qed

text \<open>
  Two results are buffered and the database raises on the write: the step of the scheduler
  loop ends with an empty deque, no row, one call of the sink and the failure logged, and
  the step after it starts a new cycle.
\<close>

theorem sink_failure_loses_batch_witness:
  "monitoring_results (buffered [200, 404]) \<noteq> []
   \<and> fst (batch_insert_monitoring_data failing_db_env
            (take RESULTS_BATCH_SAVE_SIZE (monitoring_results (buffered [200, 404])))
            (buffered [200, 404])) = Inl (Psycopg2Error ''connection lost'')
   \<and> fst (save_website_monitoring_results failing_db_env (buffered [200, 404])) =
       Inl (Psycopg2Error ''connection lost'')
   \<and> monitoring_results (monitor_step failing_db_env (buffered [200, 404])) = []
   \<and> db_rows (monitor_step failing_db_env (buffered [200, 404])) = []
   \<and> sink_calls (monitor_step failing_db_env (buffered [200, 404])) =
       [[sample_result 200, sample_result 404]]
   \<and> logged (monitor_step failing_db_env (buffered [200, 404])) =
       [LogNumTasks 2, LogDatabaseError (Psycopg2Error ''connection lost''),
        LogCouldNotSave (Psycopg2Error ''connection lost'')]
   \<and> logged (monitor_step failing_db_env (monitor_step failing_db_env (buffered [200, 404]))) =
       [LogNumTasks 2, LogDatabaseError (Psycopg2Error ''connection lost''),
        LogCouldNotSave (Psycopg2Error ''connection lost''), LogNumTasks 2]"
  using sink_failure_loses_batch [of "buffered [200, 404]" failing_db_env
      "Psycopg2Error ''connection lost''"]
  by (simp add: buffered_def failing_db_env_def example_defs monitor_step_def flush_cycle_def
        save_website_monitoring_results_def batch_insert_monitoring_data_def
        RESULTS_BATCH_SAVE_SIZE_def logging_def advance_def Let_def sample_result_def)

section \<open>The histogram of a flush\<close>

lemma first_seen_snoc:
  "first_seen (xs @ [x]) = (if x \<in> set xs then first_seen xs else first_seen xs @ [x])"
  by (simp add: first_seen_def)

lemma first_seen_set: "set (first_seen xs) = set xs"
  by (simp add: first_seen_def)

lemma first_seen_distinct: "distinct (first_seen xs)"
  by (simp add: first_seen_def)

lemma increment_map:
  "distinct ks \<Longrightarrow>
     increment (map (\<lambda>c. (c, g c)) ks) x =
       (if x \<in> set ks then map (\<lambda>c. (c, if c = x then g c + 1 else g c)) ks
        else map (\<lambda>c. (c, g c)) ks @ [(x, 1)])"
  by (induction ks) auto

lemma histogram_eq:
  "foldl increment [] codes = map (\<lambda>c. (c, count_list codes c)) (first_seen codes)"
proof (induction codes rule: rev_induct)
  case Nil
  then show ?case by (simp add: first_seen_def)
next
  case (snoc x xs)
  show ?case
  proof (cases "x \<in> set xs")
    case True
    then show ?thesis
      by (simp add: snoc.IH increment_map first_seen_distinct first_seen_set first_seen_snoc)
  next
    case False
    then have last: "count_list (xs @ [x]) x = 1" by (simp add: count_list_0_iff)
    have "\<And>c. c \<in> set (first_seen xs) \<Longrightarrow> count_list (xs @ [x]) c = count_list xs c"
      using False by (auto simp: first_seen_set)
    then have front: "map (\<lambda>c. (c, count_list (xs @ [x]) c)) (first_seen xs) =
        map (\<lambda>c. (c, count_list xs c)) (first_seen xs)"
      by (intro map_cong) simp_all
    have "foldl increment [] (xs @ [x]) =
        map (\<lambda>c. (c, count_list xs c)) (first_seen xs) @ [(x, 1)]"
      using False by (simp add: snoc.IH increment_map first_seen_distinct first_seen_set)
    also have "\<dots> = map (\<lambda>c. (c, count_list (xs @ [x]) c)) (first_seen (xs @ [x]))"
      using False by (simp only: first_seen_snoc if_False map_append front list.map last)
    finally show ?thesis .
  qed
qed

lemma sorted_descending_props:
  fixes cnt :: "int \<Rightarrow> nat"
  assumes "distinct ks"
  defines "hist \<equiv> sorted_descending (map (\<lambda>c. (c, cnt c)) ks)"
  shows "distinct (map fst hist)"
    and "set (map fst hist) = set ks"
    and "map snd hist = map cnt (map fst hist)"
    and "sorted_wrt (\<lambda>a b. snd b \<le> snd a) hist"
    and "map fst (filter (\<lambda>item. snd item = n) hist) = filter (\<lambda>c. cnt c = n) ks"
proof -
  let ?items = "map (\<lambda>c. (c, cnt c)) ks"
  let ?key = "\<lambda>item :: int \<times> nat. - int (snd item)"
  have s: "set hist = set ?items"
    by (simp add: hist_def sorted_descending_def)
  have d: "distinct hist"
    using assms(1) by (simp add: hist_def sorted_descending_def distinct_map inj_on_def)
  have inj: "inj_on fst (set hist)"
    unfolding s by (auto simp: inj_on_def)
  from d inj show "distinct (map fst hist)"
    by (simp add: distinct_map)
  show "set (map fst hist) = set ks"
    unfolding set_map s by force
  have "\<forall>item \<in> set hist. snd item = cnt (fst item)"
    unfolding s by auto
  then show "map snd hist = map cnt (map fst hist)"
    by (simp add: map_eq_conv)
  have "sorted (map ?key hist)"
    by (simp add: hist_def sorted_descending_def)
  then show "sorted_wrt (\<lambda>a b. snd b \<le> snd a) hist"
    by (simp add: sorted_map)
  have "filter (\<lambda>item. ?key item = - int n) hist = filter (\<lambda>item. ?key item = - int n) ?items"
    unfolding hist_def sorted_descending_def by (rule sort_key_stable)
  then have "filter (\<lambda>item. snd item = n) hist = filter (\<lambda>item. snd item = n) ?items"
    by simp
  then show "map fst (filter (\<lambda>item. snd item = n) hist) = filter (\<lambda>c. cnt c = n) ks"
    by (simp add: filter_map comp_def)
qed

lemma save_returns:
  assumes "fst (batch_insert_monitoring_data e
                  (take RESULTS_BATCH_SAVE_SIZE (monitoring_results s)) s) = Inr ()"
  shows "fst (save_website_monitoring_results e s) = Inr ()
    \<and> logged (snd (save_website_monitoring_results e s)) =
        logged s @ [LogSaved (length (take RESULTS_BATCH_SAVE_SIZE (monitoring_results s)))
          (sorted_descending (foldl increment []
             (map http_status_code (take RESULTS_BATCH_SAVE_SIZE (monitoring_results s)))))]
    \<and> db_rows (snd (save_website_monitoring_results e s)) =
        db_rows s @ take RESULTS_BATCH_SAVE_SIZE (monitoring_results s)"
proof -
  let ?b = "take RESULTS_BATCH_SAVE_SIZE (monitoring_results s)"
  let ?s1 = "s\<lparr>monitoring_results := drop RESULTS_BATCH_SAVE_SIZE (monitoring_results s)\<rparr>"
  obtain out s' where o: "batch_insert_monitoring_data e ?b ?s1 = (out, s')"
    by (cases "batch_insert_monitoring_data e ?b ?s1")
  from assms sink_outcome_by_tick [of ?s1 s e ?b] o have out: "out = Inr ()" by simp
  from sink_success [of e ?b ?s1 "()"] o out
  have "logged s' = logged s" "db_rows s' = db_rows s @ ?b" by simp_all
  with o out show ?thesis by (simp add: save_eq logging_def)
qed

text \<open>
  Claim C7, as the code has it. The loop of a flush builds its counter over exactly the
  popped batch: the status codes of the popped results, each once and in the order of
  their first occurrence, each with the number of popped results that carry it. When the
  sink call of the flush returns, the flush logs one record: the size of the popped batch
  and the histogram, whose keys are the status codes of the popped results, each once,
  whose counts are the numbers of popped results with that code and do not increase along
  the histogram, and in which the codes with one and the same count stand in the order of
  their first occurrence in the batch.
\<close>

theorem histogram_of_flushed_batch:
  "let batch = take RESULTS_BATCH_SAVE_SIZE (monitoring_results s);
       codes = map http_status_code batch
   in (case pop_batch (monitoring_results s) [] [] 0 of
         (remaining, monitoring_data, http_status_code_to_counter, processed_results_num) \<Rightarrow>
           monitoring_data = batch
           \<and> http_status_code_to_counter =
               map (\<lambda>c. (c, count_list codes c)) (first_seen codes)
           \<and> processed_results_num = length batch)
      \<and> (fst (batch_insert_monitoring_data e batch s) = Inr () \<longrightarrow>
           (\<exists>hist.
              logged (snd (save_website_monitoring_results e s)) =
                logged s @ [LogSaved (length batch) hist]
              \<and> distinct (map fst hist)
              \<and> set (map fst hist) = set codes
              \<and> map snd hist = map (count_list codes) (map fst hist)
              \<and> sorted_wrt (\<lambda>a b. snd b \<le> snd a) hist
              \<and> (\<forall>n. map fst (filter (\<lambda>item. snd item = n) hist) =
                       filter (\<lambda>c. count_list codes c = n) (first_seen codes))))"
proof -
  let ?batch = "take RESULTS_BATCH_SAVE_SIZE (monitoring_results s)"
  let ?codes = "map http_status_code ?batch"
  let ?hist = "sorted_descending (map (\<lambda>c. (c, count_list ?codes c)) (first_seen ?codes))"
  note props = sorted_descending_props [where cnt = "count_list ?codes"
      and ks = "first_seen ?codes", OF first_seen_distinct]
  have built: "(case pop_batch (monitoring_results s) [] [] 0 of
         (remaining, monitoring_data, http_status_code_to_counter, processed_results_num) \<Rightarrow>
           monitoring_data = ?batch
           \<and> http_status_code_to_counter =
               map (\<lambda>c. (c, count_list ?codes c)) (first_seen ?codes)
           \<and> processed_results_num = length ?batch)"
    by (simp add: pop_batch_eq histogram_eq)
  have logged: "\<exists>hist.
              logged (snd (save_website_monitoring_results e s)) =
                logged s @ [LogSaved (length ?batch) hist]
              \<and> distinct (map fst hist)
              \<and> set (map fst hist) = set ?codes
              \<and> map snd hist = map (count_list ?codes) (map fst hist)
              \<and> sorted_wrt (\<lambda>a b. snd b \<le> snd a) hist
              \<and> (\<forall>n. map fst (filter (\<lambda>item. snd item = n) hist) =
                       filter (\<lambda>c. count_list ?codes c = n) (first_seen ?codes))"
    if ok: "fst (batch_insert_monitoring_data e ?batch s) = Inr ()"
  proof -
    have "logged (snd (save_website_monitoring_results e s)) =
        logged s @ [LogSaved (length ?batch) ?hist]"
      using save_returns [OF ok] by (simp add: histogram_eq)
    moreover have "set (map fst ?hist) = set ?codes"
      using props(2) by (simp only: first_seen_set)
    moreover note props(1) props(3) props(4)
    moreover have "\<forall>n. map fst (filter (\<lambda>item. snd item = n) ?hist) =
        filter (\<lambda>c. count_list ?codes c = n) (first_seen ?codes)"
      using props(5) by blast
    ultimately show ?thesis by blast
  qed
  from built logged show ?thesis
    unfolding Let_def by blast
qed

text \<open>
  The batch of the specification, with the codes 200, 200, 404, 500, 200, and a batch with
  two ties.
\<close>

theorem histogram_of_flushed_batch_witness:
  "fst (batch_insert_monitoring_data example_env
          (take RESULTS_BATCH_SAVE_SIZE (monitoring_results (buffered [200, 200, 404, 500, 200])))
          (buffered [200, 200, 404, 500, 200])) = Inr ()
   \<and> snd (snd (pop_batch (monitoring_results (buffered [200, 200, 404, 500, 200])) [] [] 0)) =
       ([(200, 3), (404, 1), (500, 1)], 5)
   \<and> logged (snd (save_website_monitoring_results example_env
                     (buffered [200, 200, 404, 500, 200]))) =
       [LogSaved 5 [(200, 3), (404, 1), (500, 1)]]
   \<and> logged (snd (save_website_monitoring_results example_env
                     (buffered [500, 404, 200, 404, 200, 200, 500]))) =
       [LogSaved 7 [(200, 3), (500, 2), (404, 2)]]"
  using histogram_of_flushed_batch [of "buffered [200, 200, 404, 500, 200]" example_env]
  by (simp add: buffered_def example_defs save_website_monitoring_results_def
        batch_insert_monitoring_data_def sorted_descending_def first_seen_def
        RESULTS_BATCH_SAVE_SIZE_def logging_def advance_def Let_def sample_result_def)

text \<open>
  Claim C7 as stated fails: with the same five results buffered and a database that
  raises, the flush pops the batch and hands it to the sink, and the only record logged is
  the sink's own; neither the histogram nor the batch size is logged.
\<close>

theorem histogram_not_logged_when_sink_raises:
  "save_website_monitoring_results failing_db_env (buffered [200, 200, 404, 500, 200]) =
     (Inl (Psycopg2Error ''connection lost''),
      initial_state\<lparr>tick := 3,
        sink_calls := [map sample_result [200, 200, 404, 500, 200]],
        logged := [LogDatabaseError (Psycopg2Error ''connection lost'')]\<rparr>)"
  by (simp add: buffered_def failing_db_env_def example_defs save_website_monitoring_results_def
        batch_insert_monitoring_data_def
        RESULTS_BATCH_SAVE_SIZE_def logging_def advance_def Let_def sample_result_def)

text \<open>
  Claim C10, as the code has it. A flush of an empty deque calls the sink once more, with
  the empty batch, and leaves the deque empty; when that call returns, the flush returns,
  having logged the batch size 0 with an empty histogram, and no row is added.
\<close>

theorem flush_of_empty_buffer:
  assumes "monitoring_results s = []"
  shows "sink_calls (snd (save_website_monitoring_results e s)) = sink_calls s @ [[]]
    \<and> monitoring_results (snd (save_website_monitoring_results e s)) = []
    \<and> (fst (batch_insert_monitoring_data e [] s) = Inr () \<longrightarrow>
         fst (save_website_monitoring_results e s) = Inr ()
         \<and> logged (snd (save_website_monitoring_results e s)) = logged s @ [LogSaved 0 []]
         \<and> db_rows (snd (save_website_monitoring_results e s)) = db_rows s)"
proof (intro conjI impI)
  from assms show "sink_calls (snd (save_website_monitoring_results e s)) = sink_calls s @ [[]]"
    by (simp add: save_sink_calls)
  from assms show "monitoring_results (snd (save_website_monitoring_results e s)) = []"
    by (simp add: save_buffer)
  assume "fst (batch_insert_monitoring_data e [] s) = Inr ()"
  with assms have "fst (batch_insert_monitoring_data e
      (take RESULTS_BATCH_SAVE_SIZE (monitoring_results s)) s) = Inr ()"
    by simp
  from save_returns [OF this] assms
  show "fst (save_website_monitoring_results e s) = Inr ()"
    and "logged (snd (save_website_monitoring_results e s)) = logged s @ [LogSaved 0 []]"
    and "db_rows (snd (save_website_monitoring_results e s)) = db_rows s"
    by (simp_all add: sorted_descending_def)
qed

text \<open>At start-up, with a healthy database.\<close>

theorem flush_of_empty_buffer_witness:
  "monitoring_results initial_state = []
   \<and> fst (batch_insert_monitoring_data example_env [] initial_state) = Inr ()
   \<and> save_website_monitoring_results example_env initial_state =
       (Inr (), initial_state\<lparr>tick := 2, sink_calls := [[]], logged := [LogSaved 0 []]\<rparr>)"
  using flush_of_empty_buffer [of initial_state example_env]
  by (simp add: example_defs save_website_monitoring_results_def
        batch_insert_monitoring_data_def sorted_descending_def
        logging_def advance_def Let_def)

text \<open>
  Claim C10 as stated fails: the deque is empty and the SQL file cannot be opened; the
  sink is called with the empty batch and raises, and the flush logs nothing.
\<close>

theorem empty_flush_logs_nothing_when_sink_raises:
  "save_website_monitoring_results missing_sql_env initial_state =
     (Inl (OtherError ''FileNotFoundError''),
      initial_state\<lparr>tick := 1, sink_calls := [[]]\<rparr>)
   \<and> logged (snd (save_website_monitoring_results missing_sql_env initial_state)) = []"
  by (simp add: missing_sql_env_def example_defs save_website_monitoring_results_def
        batch_insert_monitoring_data_def logging_def advance_def Let_def)

end
